theory Spec2Isabelle
  imports Complex_Main "HOL-Library.AList" "HOL-Library.Sublist"
begin

section \<open>JavaScript values used by the scan engine\<close>

text \<open>
  The engine is \<^verbatim>\<open>extension/src/content/injected.js\<close>. Optional JSON fields
  (\<^verbatim>\<open>undefined\<close> or \<^verbatim>\<open>null\<close>) are \<open>option\<close> values; both are falsy and
  both are lost or kept as \<^verbatim>\<open>null\<close> by the JSON round trip through
  \<^verbatim>\<open>sessionStorage\<close>, so one \<open>None\<close> stands for either. Subscriber counts and
  ids are natural numbers. Scores are IEEE doubles in the source and exact reals here:
  rounding is not modelled. A string is a list of UTF-16 code units below 256 (the
  Latin-1 range, which holds the literals of the scripts and the handles the pattern
  of the DOM tier accepts), one \<open>char\<close> for each.
\<close>

text \<open>Truthiness of an optional string: \<^verbatim>\<open>undefined\<close>, \<^verbatim>\<open>null\<close> and \<^verbatim>\<open>""\<close> are falsy.\<close>

fun truthy_str :: "string option \<Rightarrow> bool" where
  "truthy_str None = False"
| "truthy_str (Some s) = (s \<noteq> [])"

text \<open>Truthiness of an optional number: \<^verbatim>\<open>undefined\<close>, \<^verbatim>\<open>null\<close> and \<^verbatim>\<open>0\<close> are falsy.\<close>

fun truthy_num :: "nat option \<Rightarrow> bool" where
  "truthy_num None = False"
| "truthy_num (Some n) = (n \<noteq> 0)"

text \<open>\<^verbatim>\<open>a || b\<close> on optional strings and on optional numbers.\<close>

definition or_str :: "string option \<Rightarrow> string option \<Rightarrow> string option" where
  "or_str a b = (if truthy_str a then a else b)"

definition or_num :: "nat option \<Rightarrow> nat option \<Rightarrow> nat option" where
  "or_num a b = (if truthy_num a then a else b)"

text \<open>\<^verbatim>\<open>a || ''\<close>: the string itself when truthy, the empty string otherwise.\<close>

fun str_or_empty :: "string option \<Rightarrow> string" where
  "str_or_empty None = []"
| "str_or_empty (Some s) = s"

text \<open>\<^verbatim>\<open>n || d\<close> with a numeric default \<open>d\<close>.\<close>

definition num_or :: "nat option \<Rightarrow> nat \<Rightarrow> nat" where
  "num_or a d = (case a of None \<Rightarrow> d | Some n \<Rightarrow> if n = 0 then d else n)"

text \<open>
  \<^verbatim>\<open>String.prototype.toLowerCase\<close> on code units below 256: the letters
  \<^verbatim>\<open>A\<close> to \<^verbatim>\<open>Z\<close> and the Latin-1 capitals U+00C0 to U+00DE (without the
  multiplication sign U+00D7) go to the code unit 32 above, every other code unit
  stays.
\<close>

definition upper_case :: "char list" where
  "upper_case =
     ''ABCDEFGHIJKLMNOPQRSTUVWXYZ'' @
     [CHR 0xC0, CHR 0xC1, CHR 0xC2, CHR 0xC3, CHR 0xC4, CHR 0xC5, CHR 0xC6, CHR 0xC7,
      CHR 0xC8, CHR 0xC9, CHR 0xCA, CHR 0xCB, CHR 0xCC, CHR 0xCD, CHR 0xCE, CHR 0xCF,
      CHR 0xD0, CHR 0xD1, CHR 0xD2, CHR 0xD3, CHR 0xD4, CHR 0xD5, CHR 0xD6,
      CHR 0xD8, CHR 0xD9, CHR 0xDA, CHR 0xDB, CHR 0xDC, CHR 0xDD, CHR 0xDE]"

definition lower_case :: "char list" where
  "lower_case =
     ''abcdefghijklmnopqrstuvwxyz'' @
     [CHR 0xE0, CHR 0xE1, CHR 0xE2, CHR 0xE3, CHR 0xE4, CHR 0xE5, CHR 0xE6, CHR 0xE7,
      CHR 0xE8, CHR 0xE9, CHR 0xEA, CHR 0xEB, CHR 0xEC, CHR 0xED, CHR 0xEE, CHR 0xEF,
      CHR 0xF0, CHR 0xF1, CHR 0xF2, CHR 0xF3, CHR 0xF4, CHR 0xF5, CHR 0xF6,
      CHR 0xF8, CHR 0xF9, CHR 0xFA, CHR 0xFB, CHR 0xFC, CHR 0xFD, CHR 0xFE]"

definition lower_char :: "char \<Rightarrow> char" where
  "lower_char c = (case map_of (zip upper_case lower_case) c of None \<Rightarrow> c | Some l \<Rightarrow> l)"

definition toLowerCase :: "string \<Rightarrow> string" where
  "toLowerCase s = map lower_char s"

text \<open>\<^verbatim>\<open>s.includes(t)\<close>: \<open>t\<close> occurs in \<open>s\<close> as a contiguous substring.\<close>

definition str_includes :: "string \<Rightarrow> string \<Rightarrow> bool" where
  "str_includes s t = sublist t s"

section \<open>Data model\<close>

text \<open>\<^verbatim>\<open>user.primaryPublication\<close>: only its \<^verbatim>\<open>url\<close> is read.\<close>

record publication_ref =
  pub_url :: "string option"

text \<open>A person record as pushed by every extraction tier.\<close>

record user =
  u_id :: "nat option"
  u_handle :: "string option"
  u_name :: "string option"
  u_bio :: "string option"
  u_photo_url :: "string option"
  u_primaryPublication :: "publication_ref option"

text \<open>An element of \<^verbatim>\<open>state.newsletters\<close>.\<close>

record newsletter =
  nl_id :: nat
  nl_name :: string
  nl_subdomain :: string
  nl_authorId :: nat
  nl_subscriberCount :: "nat option"

datatype page_type = subscribers | followers

text \<open>An element of \<^verbatim>\<open>state.pagesToVisit\<close>.\<close>

record page_visit =
  pv_newsletterId :: nat
  pv_name :: string
  pv_subdomain :: string
  pv_authorId :: nat
  pv_subscriberCount :: "nat option"
  pv_pageType :: page_type

text \<open>A value of \<^verbatim>\<open>state.personAppearances[handle]\<close>.\<close>

record appearance =
  profile :: user
  newsletterIds :: "nat list"

text \<open>
  \<^verbatim>\<open>state.personAppearances\<close> is a plain object keyed by handle. Its own
  properties are an association list in the order of their creation; the first pair
  with a key is the binding of that key.
\<close>

type_synonym appearances = "(string \<times> appearance) list"

text \<open>
  A key is an array index when it is the decimal numeral, without a leading zero, of a
  number below \<open>2\<^sup>3\<^sup>2 - 1\<close>.
\<close>

definition digit_value :: "char \<Rightarrow> nat option" where
  "digit_value c = map_of (zip ''0123456789'' [0, 1, 2, 3, 4, 5, 6, 7, 8, 9]) c"

fun array_index :: "string \<Rightarrow> nat option" where
  "array_index [] = None"
| "array_index (c # cs) =
     (if c = CHR ''0'' then (if cs = [] then Some 0 else None)
      else if list_all (\<lambda>d. digit_value d \<noteq> None) (c # cs) then
        (let v = foldl (\<lambda>n d. 10 * n + (case digit_value d of None \<Rightarrow> 0 | Some x \<Rightarrow> x)) 0 (c # cs)
         in if v < 4294967295 then Some v else None)
      else None)"

text \<open>
  \<^verbatim>\<open>Object.entries(obj)\<close>: the own properties whose keys are array indices, in
  ascending order of the index, and then the others in the order of their creation.
\<close>

definition object_entries :: "(string \<times> 'a) list \<Rightarrow> (string \<times> 'a) list" where
  "object_entries obj =
     sort_key (\<lambda>(k, v). case array_index k of None \<Rightarrow> 0 | Some i \<Rightarrow> i)
       (filter (\<lambda>(k, v). array_index k \<noteq> None) obj)
     @ filter (\<lambda>(k, v). array_index k = None) obj"

text \<open>
  The names of the properties that a plain object inherits from
  \<^verbatim>\<open>Object.prototype\<close>.
\<close>

definition object_prototype_keys :: "string list" where
  "object_prototype_keys =
     [''constructor'', ''__defineGetter__'', ''__defineSetter__'', ''hasOwnProperty'',
      ''__lookupGetter__'', ''__lookupSetter__'', ''isPrototypeOf'', ''propertyIsEnumerable'',
      ''toString'', ''valueOf'', ''__proto__'', ''toLocaleString'']"

text \<open>
  \<^verbatim>\<open>obj[key]\<close> on a plain object: the own property when there is one; else, for
  a name of \<^verbatim>\<open>Object.prototype\<close>, what the prototype has there (a function, or
  the prototype itself for \<^verbatim>\<open>__proto__\<close>: a truthy value with no
  \<^verbatim>\<open>newsletterIds\<close>); else \<^verbatim>\<open>undefined\<close>.
\<close>

datatype 'a looked_up = Own 'a | Inherited | Absent

definition property_of :: "(string \<times> 'a) list \<Rightarrow> string \<Rightarrow> 'a looked_up" where
  "property_of obj key =
     (case map_of obj key of
        Some v \<Rightarrow> Own v
      | None \<Rightarrow> if key \<in> set object_prototype_keys then Inherited else Absent)"

text \<open>An exception that no \<^verbatim>\<open>catch\<close> of the script handles.\<close>

datatype js_exception = TypeError

record scan_state =
  username :: string
  profileId :: "nat option"
  newsletters :: "newsletter list"
  pagesToVisit :: "page_visit list"
  currentPageIndex :: nat
  personAppearances :: appearances

section \<open>Scoring\<close>

text \<open>
  \<^verbatim>\<open>function computeNichenessWeight(subscriberCount) {
    return 1.0 / Math.log((subscriberCount || 1000) + 2); }\<close>
\<close>

definition computeNichenessWeight :: "nat option \<Rightarrow> real" where
  "computeNichenessWeight subscriberCount = 1 / ln (real (num_or subscriberCount 1000 + 2))"

text \<open>
  \<^verbatim>\<open>function computeQualityScore(profile)\<close>: 1.0 for a bio, 2.0 for a publication,
  0.5 for a photo.
\<close>

definition computeQualityScore :: "user \<Rightarrow> real" where
  "computeQualityScore p =
     (if truthy_str (u_bio p) then 1 else 0)
   + (if u_primaryPublication p \<noteq> None then 2 else 0)
   + (if truthy_str (u_photo_url p) then 1 / 2 else 0)"

section \<open>Appearance tracking\<close>

text \<open>
  The loop body of \<^verbatim>\<open>processScan\<close> (lines 222 to 235), in its two steps. First:
  \<^verbatim>\<open>if (!state.personAppearances[key])
    state.personAppearances[key] = { profile: user, newsletterIds: [] };\<close>
  An own entry and an inherited property are both truthy.
\<close>

definition ensure_entry :: "string \<Rightarrow> user \<Rightarrow> appearances \<Rightarrow> appearances" where
  "ensure_entry key u apps =
     (case property_of apps key of
        Absent \<Rightarrow> apps @ [(key, \<lparr>profile = u, newsletterIds = []\<rparr>)]
      | Own _ \<Rightarrow> apps
      | Inherited \<Rightarrow> apps)"

text \<open>
  Second:
  \<^verbatim>\<open>if (!state.personAppearances[key].newsletterIds.includes(currentPage.newsletterId))
    state.personAppearances[key].newsletterIds.push(currentPage.newsletterId);\<close>
  On an inherited property \<^verbatim>\<open>.newsletterIds\<close> is \<^verbatim>\<open>undefined\<close> and the call
  of \<^verbatim>\<open>includes\<close> throws a TypeError; so would the read of
  \<^verbatim>\<open>.newsletterIds\<close> on \<^verbatim>\<open>undefined\<close>.
\<close>

definition add_newsletter :: "string \<Rightarrow> nat \<Rightarrow> appearances \<Rightarrow> js_exception + appearances" where
  "add_newsletter key nlId apps =
     (case property_of apps key of
        Own d \<Rightarrow>
          Inr (if nlId \<in> set (newsletterIds d) then apps
               else AList.update key (d\<lparr>newsletterIds := newsletterIds d @ [nlId]\<rparr>) apps)
      | Inherited \<Rightarrow> Inl TypeError
      | Absent \<Rightarrow> Inl TypeError)"

text \<open>One iteration: \<^verbatim>\<open>if (!user.handle) continue; const key = user.handle; ...\<close>\<close>

definition track_user :: "nat \<Rightarrow> appearances \<Rightarrow> user \<Rightarrow> js_exception + appearances" where
  "track_user nlId apps u =
     (case u_handle u of
        None \<Rightarrow> Inr apps
      | Some key \<Rightarrow>
          if key = [] then Inr apps
          else add_newsletter key nlId (ensure_entry key u apps))"

text \<open>
  \<^verbatim>\<open>for (const user of users) { ... }\<close>; an exception ends the loop and leaves
  \<^verbatim>\<open>processScan\<close>.
\<close>

fun trackAppearances :: "nat \<Rightarrow> user list \<Rightarrow> appearances \<Rightarrow> js_exception + appearances" where
  "trackAppearances nlId [] apps = Inr apps"
| "trackAppearances nlId (u # rest) apps =
     (case track_user nlId apps u of
        Inl e \<Rightarrow> Inl e
      | Inr apps' \<Rightarrow> trackAppearances nlId rest apps')"

section \<open>Messages to the popup and the result of one run of the script\<close>

text \<open>The \<^verbatim>\<open>user\<close> object of a match, as built in \<^verbatim>\<open>finishScan\<close>.\<close>

record match_user =
  mu_id :: "nat option"
  mu_username :: string
  mu_name :: string
  mu_bio :: string
  mu_photoUrl :: string
  mu_hasPublication :: bool
  mu_publicationUrl :: string

record match =
  m_user :: match_user
  m_score :: real
  m_sharedNewsletters :: "newsletter list"

text \<open>
  The texts of the status and error messages are template strings; the model keeps
  which message it is and the values put into it.
\<close>

datatype status = FetchingProfile string | FoundSubscriptions nat | ComputingMatches

datatype error_message =
    ProfileFetchFailed nat
  | ProfileFetchThrew
  | NoSubscriptionsFound
  | TypeError_first_undefined

text \<open>The fields of a \<^verbatim>\<open>step: 'scanning'\<close> progress message.\<close>

record scanning_progress =
  sp_current :: nat
  sp_total :: nat
  sp_name :: string
  sp_pageType :: "page_type option"
  sp_newsletterCount :: "nat option"
  sp_matchCount :: nat

datatype message =
    READY
  | PROGRESS_status status
  | PROGRESS_scanning scanning_progress
  | COMPLETE "match list"
  | ERROR error_message

text \<open>
  What one run of a function of the script leaves behind: the content of
  \<^verbatim>\<open>sessionStorage[STATE_KEY]\<close>, the messages posted in order, the URL assigned to
  \<^verbatim>\<open>window.location.href\<close> if any, the page visit handed to
  \<^verbatim>\<open>getUsersForPage\<close> whose records were merged into the appearances and stored,
  if any, and the exception that ended the run, if one did.
\<close>

record outcome =
  stored :: "scan_state option"
  posted :: "message list"
  location :: "string option"
  extracted :: "page_visit option"
  uncaught :: "js_exception option"

section \<open>Scorer\<close>

text \<open>
  \<^verbatim>\<open>new Map(state.newsletters.map(n => [n.id, n]))\<close>: a later newsletter with the
  same id replaces an earlier one.
\<close>

definition newsletterMap :: "newsletter list \<Rightarrow> nat \<Rightarrow> newsletter option" where
  "newsletterMap nls = map_of (rev (map (\<lambda>n. (nl_id n, n)) nls))"

text \<open>
  \<^verbatim>\<open>for (const nlId of newsletterIds) { const nl = newsletterMap.get(nlId);
    if (nl) { score += computeNichenessWeight(nl.subscriberCount);
              sharedNewsletters.push(nl); } }\<close>
\<close>

fun score_loop ::
  "(nat \<Rightarrow> newsletter option) \<Rightarrow> nat list \<Rightarrow> real \<times> newsletter list \<Rightarrow> real \<times> newsletter list"
where
  "score_loop nm [] acc = acc"
| "score_loop nm (nlId # rest) (score, shared) =
     (case nm nlId of
        None \<Rightarrow> score_loop nm rest (score, shared)
      | Some nl \<Rightarrow>
          score_loop nm rest
            (score + computeNichenessWeight (nl_subscriberCount nl), shared @ [nl]))"

text \<open>The \<^verbatim>\<open>user\<close> object pushed with a match.\<close>

definition match_user_of :: "user \<Rightarrow> match_user" where
  "match_user_of p =
     \<lparr>mu_id = u_id p,
      mu_username = str_or_empty (u_handle p),
      mu_name = str_or_empty (or_str (u_name p) (u_handle p)),
      mu_bio = str_or_empty (u_bio p),
      mu_photoUrl = str_or_empty (u_photo_url p),
      mu_hasPublication = (u_primaryPublication p \<noteq> None),
      mu_publicationUrl =
        (case u_primaryPublication p of None \<Rightarrow> [] | Some pp \<Rightarrow> str_or_empty (pub_url pp))\<rparr>"

text \<open>
  One iteration of the loop over \<^verbatim>\<open>Object.entries(state.personAppearances)\<close>:
  \<open>None\<close> is \<^verbatim>\<open>continue\<close>, \<open>Some m\<close> is \<^verbatim>\<open>matches.push(m)\<close>.
\<close>

definition match_of :: "scan_state \<Rightarrow> string \<times> appearance \<Rightarrow> match option" where
  "match_of state entry =
     (case entry of (handle, data) \<Rightarrow>
        if toLowerCase handle = toLowerCase (username state) then None
        else if length (newsletterIds data) < 2 then None
        else
          (case score_loop (newsletterMap (newsletters state)) (newsletterIds data) (0, []) of
             (score, sharedNewsletters) \<Rightarrow>
               Some \<lparr>m_user = match_user_of (profile data),
                     m_score = score + computeQualityScore (profile data) * (1 / 10),
                     m_sharedNewsletters = sharedNewsletters\<rparr>))"

definition collect_matches :: "scan_state \<Rightarrow> match list" where
  "collect_matches state =
     List.map_filter (match_of state) (object_entries (personAppearances state))"

text \<open>
  \<^verbatim>\<open>matches.sort((a, b) => b.score - a.score)\<close>: a stable sort, descending by
  score. Then \<^verbatim>\<open>clearState(); sendComplete(matches)\<close>.
\<close>

definition finishScan :: "scan_state \<Rightarrow> outcome" where
  "finishScan state =
     \<lparr>stored = None,
      posted = [PROGRESS_status ComputingMatches,
                COMPLETE (sort_key (\<lambda>m. - m_score m) (collect_matches state))],
      location = None,
      extracted = None,
      uncaught = None\<rparr>"

text \<open>The matches of the \<^verbatim>\<open>COMPLETE\<close> messages among the posted messages.\<close>

fun completed :: "message list \<Rightarrow> match list" where
  "completed [] = []"
| "completed (COMPLETE ms # rest) = ms @ completed rest"
| "completed (_ # rest) = completed rest"

text \<open>The \<^verbatim>\<open>ERROR\<close> messages among the posted messages.\<close>

fun errors :: "message list \<Rightarrow> error_message list" where
  "errors [] = []"
| "errors (ERROR e # rest) = e # errors rest"
| "errors (_ # rest) = errors rest"

text \<open>The scanning progress messages among the posted messages.\<close>

fun scanning :: "message list \<Rightarrow> scanning_progress list" where
  "scanning [] = []"
| "scanning (PROGRESS_scanning p # rest) = p # scanning rest"
| "scanning (_ # rest) = scanning rest"

text \<open>
  What the appearance tracking maintains: every key is bound once, it is the non-empty
  handle of the profile stored under it, and no newsletter id occurs twice.
\<close>

definition wf_appearances :: "appearances \<Rightarrow> bool" where
  "wf_appearances apps =
     (distinct (map fst apps) \<and>
      list_all (\<lambda>(k, d). k \<noteq> [] \<and> u_handle (profile d) = Some k \<and> distinct (newsletterIds d)) apps)"

section \<open>Scan planner\<close>

text \<open>The fields of \<^verbatim>\<open>sub.publication\<close> that \<^verbatim>\<open>startScan\<close> reads.\<close>

record publication =
  p_id :: nat
  p_name :: string
  p_subdomain :: "string option"
  p_author_id :: "nat option"
  p_primary_user_id :: "nat option"
  p_subscriber_count :: "nat option"

record subscription =
  sub_publication :: "publication option"

record user_profile =
  up_id :: "nat option"
  up_name :: "string option"
  up_subscriptions :: "subscription list option"

text \<open>
  What \<^verbatim>\<open>await getUserProfile(username)\<close> comes back with: the parsed profile,
  an HTTP status that is not ok (the function throws
  \<^verbatim>\<open>Profile fetch failed: <status>\<close>), or an exception of \<^verbatim>\<open>fetch\<close> or of
  \<^verbatim>\<open>response.json()\<close>.
\<close>

datatype profile_response = Ok user_profile | HttpError nat | FetchThrew

text \<open>
  \<^verbatim>\<open>.map(sub => sub.publication)
   .filter(pub => pub && pub.subdomain && (pub.author_id || pub.primary_user_id))\<close>
  on one subscription: the publication when the filter keeps it.
\<close>

definition scannable :: "subscription \<Rightarrow> publication option" where
  "scannable sub =
     (case sub_publication sub of
        None \<Rightarrow> None
      | Some pub \<Rightarrow>
          if truthy_str (p_subdomain pub)
             \<and> truthy_num (or_num (p_author_id pub) (p_primary_user_id pub))
          then Some pub else None)"

text \<open>The sort key of \<^verbatim>\<open>(a.subscriber_count || 0) - (b.subscriber_count || 0)\<close>.\<close>

definition count_key :: "nat option \<Rightarrow> nat" where
  "count_key c = num_or c 0"

text \<open>
  \<^verbatim>\<open>const newsletters = subscriptions.map(...).filter(...).sort(...)\<close>;
  \<^verbatim>\<open>Array.prototype.sort\<close> is stable, as the insertion sort \<open>sort_key\<close> is.
\<close>

definition plan_newsletters :: "subscription list \<Rightarrow> publication list" where
  "plan_newsletters subscriptions =
     sort_key (\<lambda>pub. count_key (p_subscriber_count pub)) (List.map_filter scannable subscriptions)"

text \<open>
  \<^verbatim>\<open>nl.author_id || nl.primary_user_id\<close>; the filter has made it a non-zero number.
\<close>

definition author_of :: "publication \<Rightarrow> nat" where
  "author_of nl = (case or_num (p_author_id nl) (p_primary_user_id nl) of None \<Rightarrow> 0 | Some a \<Rightarrow> a)"

definition visit_of :: "publication \<Rightarrow> page_type \<Rightarrow> page_visit" where
  "visit_of nl pt =
     \<lparr>pv_newsletterId = p_id nl,
      pv_name = p_name nl,
      pv_subdomain = str_or_empty (p_subdomain nl),
      pv_authorId = author_of nl,
      pv_subscriberCount = p_subscriber_count nl,
      pv_pageType = pt\<rparr>"

text \<open>
  \<^verbatim>\<open>for (const nl of newsletters) {
    pagesToVisit.push({..., pageType: 'subscribers'});
    pagesToVisit.push({..., pageType: 'followers'}); }\<close>
\<close>

fun plan_pages :: "publication list \<Rightarrow> page_visit list" where
  "plan_pages [] = []"
| "plan_pages (nl # rest) = visit_of nl subscribers # visit_of nl followers # plan_pages rest"

definition newsletter_of :: "publication \<Rightarrow> newsletter" where
  "newsletter_of n =
     \<lparr>nl_id = p_id n,
      nl_name = p_name n,
      nl_subdomain = str_or_empty (p_subdomain n),
      nl_authorId = author_of n,
      nl_subscriberCount = p_subscriber_count n\<rparr>"

fun page_type_str :: "page_type \<Rightarrow> string" where
  "page_type_str subscribers = ''subscribers''"
| "page_type_str followers = ''followers''"

text \<open>\<^verbatim>\<open>`https://substack.com/@${page.subdomain}/${page.pageType}`\<close>\<close>

definition page_url :: "page_visit \<Rightarrow> string" where
  "page_url page =
     ''https://substack.com/@'' @ pv_subdomain page @ ''/'' @ page_type_str (pv_pageType page)"

definition failed :: "scan_state option \<Rightarrow> message list \<Rightarrow> outcome" where
  "failed st msgs =
     \<lparr>stored = st, posted = msgs, location = None, extracted = None, uncaught = None\<rparr>"

text \<open>
  \<^verbatim>\<open>async function startScan(username)\<close>. Every \<^verbatim>\<open>throw\<close> inside the
  \<^verbatim>\<open>try\<close> ends in \<^verbatim>\<open>sendError(error.message)\<close>. With a plan of no pages,
  \<^verbatim>\<open>first\<close> is \<^verbatim>\<open>undefined\<close> and \<^verbatim>\<open>first.name\<close> throws a TypeError after
  \<^verbatim>\<open>setState(state)\<close> has run. The delay before the navigation is not modelled.
\<close>

definition startScan :: "string \<Rightarrow> profile_response \<Rightarrow> outcome" where
  "startScan uname response =
     (let fetching = PROGRESS_status (FetchingProfile uname) in
      case response of
        HttpError code \<Rightarrow> failed None [fetching, ERROR (ProfileFetchFailed code)]
      | FetchThrew \<Rightarrow> failed None [fetching, ERROR ProfileFetchThrew]
      | Ok prof \<Rightarrow>
          (let subscriptions = (case up_subscriptions prof of None \<Rightarrow> [] | Some ss \<Rightarrow> ss) in
           if length subscriptions = 0 then failed None [fetching, ERROR NoSubscriptionsFound]
           else
             (let found = PROGRESS_status (FoundSubscriptions (length subscriptions));
                  nls = plan_newsletters subscriptions;
                  pages = plan_pages nls;
                  state = \<lparr>username = uname,
                           profileId = up_id prof,
                           newsletters = map newsletter_of nls,
                           pagesToVisit = pages,
                           currentPageIndex = 0,
                           personAppearances = []\<rparr>
              in case pages of
                   [] \<Rightarrow> failed (Some state) [fetching, found, ERROR TypeError_first_undefined]
                 | first # _ \<Rightarrow>
                     \<lparr>stored = Some state,
                      posted = [fetching, found,
                                PROGRESS_scanning
                                  \<lparr>sp_current = 1,
                                   sp_total = length pages,
                                   sp_name = pv_name first @ '' ('' @ page_type_str (pv_pageType first) @ '')'',
                                   sp_pageType = None,
                                   sp_newsletterCount = None,
                                   sp_matchCount = 0\<rparr>],
                      location = Some (page_url first),
                      extracted = None,
                      uncaught = None\<rparr>)))"

section \<open>Extraction pipeline\<close>

text \<open>
  The subscriber-lists schema, \<^verbatim>\<open>list -> group -> user\<close>. A missing
  \<^verbatim>\<open>groups\<close> or \<^verbatim>\<open>users\<close> array is \<open>None\<close> (the source reads
  \<^verbatim>\<open>list.groups || []\<close>). The model covers payloads of this schema.
\<close>

record raw_user =
  r_id :: "nat option"
  r_handle :: "string option"
  r_username :: "string option"
  r_name :: "string option"
  r_bio :: "string option"
  r_photo_url :: "string option"
  r_primaryPublication :: "publication_ref option"

datatype user_group = Group (g_users: "raw_user list option")

datatype subscriber_list = SubscriberList (l_groups: "user_group list option")

record api_response =
  subscriberLists :: "subscriber_list list option"

text \<open>The object pushed for one user of the payload.\<close>

definition pushed_user :: "raw_user \<Rightarrow> user" where
  "pushed_user r =
     \<lparr>u_id = r_id r,
      u_handle = or_str (r_handle r) (r_username r),
      u_name = r_name r,
      u_bio = r_bio r,
      u_photo_url = r_photo_url r,
      u_primaryPublication = r_primaryPublication r\<rparr>"

text \<open>
  The three nested loops, the same in \<^verbatim>\<open>extractUsersFromApiResponse\<close> and in the
  \<^verbatim>\<open>__NEXT_DATA__\<close> branch.
\<close>

definition users_of_group :: "user_group \<Rightarrow> user list" where
  "users_of_group g = (case g_users g of None \<Rightarrow> [] | Some us \<Rightarrow> map pushed_user us)"

definition users_of_list :: "subscriber_list \<Rightarrow> user list" where
  "users_of_list l = (case l_groups l of None \<Rightarrow> [] | Some gs \<Rightarrow> concat (map users_of_group gs))"

definition users_of_lists :: "subscriber_list list \<Rightarrow> user list" where
  "users_of_lists ls = concat (map users_of_list ls)"

text \<open>
  \<^verbatim>\<open>function extractUsersFromApiResponse(data)\<close>:
  \<^verbatim>\<open>if (!data || !data.subscriberLists) return users;\<close> and then the loops.
\<close>

definition extractUsersFromApiResponse :: "api_response option \<Rightarrow> user list" where
  "extractUsersFromApiResponse data =
     (case data of
        None \<Rightarrow> []
      | Some d \<Rightarrow> (case subscriberLists d of None \<Rightarrow> [] | Some ls \<Rightarrow> users_of_lists ls))"

text \<open>
  The three places of \<^verbatim>\<open>pageProps\<close> where the lists may be:
  \<^verbatim>\<open>pageProps?.subscriberLists || pageProps?.initialData?.subscriberLists ||
   pageProps?.dehydratedState?.queries?.[0]?.state?.data?.subscriberLists\<close>.
  An array is truthy also when empty, so the first one present is taken.
\<close>

record page_props =
  pp_subscriberLists :: "subscriber_list list option"
  pp_initialData :: "subscriber_list list option"
  pp_dehydratedState :: "subscriber_list list option"

text \<open>
  The \<^verbatim>\<open>__NEXT_DATA__\<close> element: its text does not parse (\<^verbatim>\<open>JSON.parse\<close>
  throws, caught), or it parses and \<^verbatim>\<open>data?.props?.pageProps\<close> is there or not.
\<close>

datatype next_data = Unparseable | Parsed "page_props option"

text \<open>
  A link of \<^verbatim>\<open>document.querySelectorAll('a[href*="/@"]')\<close>: its
  \<^verbatim>\<open>href\<close> attribute, its text, and from the card around it the text of the
  bio element and the \<^verbatim>\<open>src\<close> of the image, where they exist.
\<close>

record profile_link =
  l_href :: string
  l_textContent :: string
  l_card_bio :: "string option"
  l_card_img :: "string option"

text \<open>
  The page the script runs on: \<^verbatim>\<open>window.location.href\<close>, what
  \<^verbatim>\<open>fetchSubscriberList(authorId, listType)\<close> resolves to (\<open>None\<close> for
  \<^verbatim>\<open>null\<close>: a status that is not ok, or an exception), and the document.
\<close>

record page_env =
  env_href :: string
  env_fetchSubscriberList :: "nat \<Rightarrow> page_type \<Rightarrow> api_response option"
  env_nextData :: "next_data option"
  env_profileLinks :: "profile_link list"

text \<open>
  Each tier as a block of \<^verbatim>\<open>getUsersForPage\<close>: \<open>Some users\<close> is its
  \<^verbatim>\<open>return users\<close>, \<open>None\<close> is falling through to the code below.
\<close>

definition api_block :: "api_response option \<Rightarrow> user list option" where
  "api_block apiData =
     (case apiData of
        None \<Rightarrow> None
      | Some d \<Rightarrow>
          (let users = extractUsersFromApiResponse (Some d)
           in if length users > 0 then Some users else None))"

definition next_lists :: "page_props option \<Rightarrow> subscriber_list list option" where
  "next_lists pageProps =
     (case pageProps of
        None \<Rightarrow> None
      | Some pp \<Rightarrow>
          (case pp_subscriberLists pp of
             Some ls \<Rightarrow> Some ls
           | None \<Rightarrow>
               (case pp_initialData pp of
                  Some ls \<Rightarrow> Some ls
                | None \<Rightarrow> pp_dehydratedState pp)))"

definition next_data_block :: "next_data option \<Rightarrow> user list option" where
  "next_data_block nextData =
     (case nextData of
        None \<Rightarrow> None
      | Some Unparseable \<Rightarrow> None
      | Some (Parsed pageProps) \<Rightarrow>
          (case next_lists pageProps of
             None \<Rightarrow> None
           | Some ls \<Rightarrow>
               (let users = users_of_lists ls
                in if length users > 0 then Some users else None)))"

text \<open>The character class \<^verbatim>\<open>[a-zA-Z0-9_-]\<close>.\<close>

definition handle_char :: "char \<Rightarrow> bool" where
  "handle_char c =
     (c \<in> set ''abcdefghijklmnopqrstuvwxyzABCDEFGHIJKLMNOPQRSTUVWXYZ0123456789_-'')"

text \<open>
  \<^verbatim>\<open>href.match(/@([a-zA-Z0-9_-]+)/)\<close>: the capture of the leftmost match, the
  longest run of handle characters after the first \<^verbatim>\<open>@\<close> that has one.
\<close>

fun match_handle :: "string \<Rightarrow> string option" where
  "match_handle [] = None"
| "match_handle (c # cs) =
     (if c = CHR ''@'' \<and> takeWhile handle_char cs \<noteq> [] then Some (takeWhile handle_char cs)
      else match_handle cs)"

text \<open>
  \<^verbatim>\<open>String.prototype.trim\<close>: the white space and line terminators among the
  code units below 256 are the space, U+0009 to U+000D and the no-break space U+00A0.
\<close>

definition white_space :: "char \<Rightarrow> bool" where
  "white_space c =
     (c \<in> set [CHR '' '', CHR 0x09, CHR 0x0A, CHR 0x0B, CHR 0x0C, CHR 0x0D, CHR 0xA0])"

definition trim :: "string \<Rightarrow> string" where
  "trim s = rev (dropWhile white_space (rev (dropWhile white_space s)))"

definition scraped_user :: "profile_link \<Rightarrow> string \<Rightarrow> user" where
  "scraped_user link h =
     \<lparr>u_id = None,
      u_handle = Some h,
      u_name = or_str (Some (trim (l_textContent link))) (Some h),
      u_bio = map_option trim (l_card_bio link),
      u_photo_url = l_card_img link,
      u_primaryPublication = None\<rparr>"

text \<open>
  The loop over the links, with \<^verbatim>\<open>seenHandles\<close> as its second argument:
  links without a handle and handles seen before are skipped.
\<close>

fun scrape_links :: "profile_link list \<Rightarrow> string list \<Rightarrow> user list" where
  "scrape_links [] seenHandles = []"
| "scrape_links (link # rest) seenHandles =
     (case match_handle (l_href link) of
        None \<Rightarrow> scrape_links rest seenHandles
      | Some h \<Rightarrow>
          if h \<in> set seenHandles then scrape_links rest seenHandles
          else scraped_user link h # scrape_links rest (h # seenHandles))"

text \<open>\<^verbatim>\<open>async function getUsersForPage(authorId, pageType)\<close>\<close>

definition getUsersForPage :: "page_env \<Rightarrow> nat \<Rightarrow> page_type \<Rightarrow> user list" where
  "getUsersForPage env authorId pageType =
     (case api_block (env_fetchSubscriberList env authorId pageType) of
        Some users \<Rightarrow> users
      | None \<Rightarrow>
          (case next_data_block (env_nextData env) of
             Some users \<Rightarrow> users
           | None \<Rightarrow> scrape_links (env_profileLinks env) []))"

text \<open>
  The records each tier extracts from the page, whether or not the pipeline gets to it:
  tier 1 from the API response, tier 2 from \<^verbatim>\<open>__NEXT_DATA__\<close>, tier 3 from the
  visible links.
\<close>

definition tier1 :: "page_env \<Rightarrow> nat \<Rightarrow> page_type \<Rightarrow> user list" where
  "tier1 env authorId pageType =
     extractUsersFromApiResponse (env_fetchSubscriberList env authorId pageType)"

definition tier2 :: "page_env \<Rightarrow> user list" where
  "tier2 env =
     (case env_nextData env of
        Some (Parsed pageProps) \<Rightarrow>
          (case next_lists pageProps of None \<Rightarrow> [] | Some ls \<Rightarrow> users_of_lists ls)
      | _ \<Rightarrow> [])"

definition tier3 :: "page_env \<Rightarrow> user list" where
  "tier3 env = scrape_links (env_profileLinks env) []"

section \<open>Navigator\<close>

text \<open>
  \<^verbatim>\<open>const currentPage = state.pagesToVisit[state.currentPageIndex];\<close> and the test
  \<^verbatim>\<open>currentPage && url.includes(`@${currentPage.subdomain}`)\<close>: the page to
  process on this run, if there is one. An index past the end reads \<^verbatim>\<open>undefined\<close>.
\<close>

definition page_to_process :: "page_env \<Rightarrow> scan_state \<Rightarrow> page_visit option" where
  "page_to_process env state =
     (if currentPageIndex state < length (pagesToVisit state) then
        (let currentPage = pagesToVisit state ! currentPageIndex state
         in if str_includes (env_href env) (''@'' @ pv_subdomain currentPage)
            then Some currentPage else None)
      else None)"

text \<open>The progress message of \<^verbatim>\<open>processScan\<close> for a page.\<close>

definition scanning_message :: "scan_state \<Rightarrow> page_visit \<Rightarrow> message" where
  "scanning_message state page =
     PROGRESS_scanning
       \<lparr>sp_current = currentPageIndex state + 1,
        sp_total = length (pagesToVisit state),
        sp_name = pv_name page,
        sp_pageType = Some (pv_pageType page),
        sp_newsletterCount = Some (length (newsletters state)),
        sp_matchCount = length (personAppearances state)\<rparr>"

text \<open>
  The body of the \<^verbatim>\<open>if\<close> after its progress message: extraction, appearance
  tracking, \<^verbatim>\<open>state.currentPageIndex++\<close>; the result is what
  \<^verbatim>\<open>setState(state)\<close> stores. An exception of the tracking loop leaves the
  function before the increment and before \<^verbatim>\<open>setState\<close>.
\<close>

definition process_page :: "page_env \<Rightarrow> page_visit \<Rightarrow> scan_state \<Rightarrow> js_exception + scan_state" where
  "process_page env currentPage state =
     (let extractedUsers = getUsersForPage env (pv_authorId currentPage) (pv_pageType currentPage)
      in case trackAppearances (pv_newsletterId currentPage) extractedUsers
                (personAppearances state) of
           Inl e \<Rightarrow> Inl e
         | Inr apps \<Rightarrow>
             Inr (state\<lparr>personAppearances := apps,
                        currentPageIndex := currentPageIndex state + 1\<rparr>))"

text \<open>
  A run of the script has three places where it waits and other code can run: the
  timer of three seconds between the load and \<^verbatim>\<open>processScan\<close>, the
  \<^verbatim>\<open>await\<close> of \<^verbatim>\<open>getUsersForPage\<close>, and the \<^verbatim>\<open>await\<close> of the delay
  before the navigation. In each, a \<^verbatim>\<open>CANCEL_SCAN\<close> command may run
  \<^verbatim>\<open>clearState()\<close>, and the host may unload the page, after which nothing of the
  run happens any more. A flag for a place that the run does not reach has no effect.
\<close>

datatype phase = in_timer | in_fetch | in_delay

record interruption =
  cancel_in_timer :: bool
  cancel_in_fetch :: bool
  cancel_in_delay :: bool
  unloaded :: "phase option"

definition quiet :: interruption where
  "quiet =
     \<lparr>cancel_in_timer = False, cancel_in_fetch = False, cancel_in_delay = False,
      unloaded = None\<rparr>"

text \<open>A run that posts nothing and goes nowhere.\<close>

definition idle :: "scan_state option \<Rightarrow> outcome" where
  "idle st = \<lparr>stored = st, posted = [], location = None, extracted = None, uncaught = None\<rparr>"

text \<open>
  The second half of \<^verbatim>\<open>processScan\<close>, \<^verbatim>\<open>// Move to next page or finish\<close>,
  with the store holding \<open>state\<close>: the progress message of the next page, the delay
  and the navigation, or \<^verbatim>\<open>finishScan(state)\<close>. A cancel during the delay empties
  the store, and the navigation still follows; an unload during the delay leaves the
  navigation out.
\<close>

definition move_on :: "interruption \<Rightarrow> scan_state \<Rightarrow> message list \<Rightarrow> page_visit option \<Rightarrow> outcome" where
  "move_on i state msgs visit =
     (if currentPageIndex state < length (pagesToVisit state) then
        (let next = pagesToVisit state ! currentPageIndex state
         in \<lparr>stored = (if cancel_in_delay i then None else Some state),
             posted = msgs @ [scanning_message state next],
             location = (if unloaded i = Some in_delay then None else Some (page_url next)),
             extracted = visit,
             uncaught = None\<rparr>)
      else
        (let done = finishScan state
         in done\<lparr>posted := msgs @ posted done, extracted := visit\<rparr>))"

text \<open>
  \<^verbatim>\<open>async function processScan()\<close>, from its \<^verbatim>\<open>getState()\<close> on. On the
  page of the current visit: the progress message, the fetch (a cancel during it
  empties the store; an unload ends the run), the tracking (an exception ends the run
  with the store as it is), and \<^verbatim>\<open>setState(state)\<close>, which writes the state back
  whether or not a cancel has emptied the store in between. On any other page the
  function goes straight to its second half.
\<close>

definition processScan :: "interruption \<Rightarrow> page_env \<Rightarrow> scan_state option \<Rightarrow> outcome" where
  "processScan i env st =
     (case st of
        None \<Rightarrow> idle None
      | Some state \<Rightarrow>
          (case page_to_process env state of
             None \<Rightarrow> move_on i state [] None
           | Some page \<Rightarrow>
               (let msgs = [scanning_message state page];
                    kept = (if cancel_in_fetch i then None else Some state)
                in if unloaded i = Some in_fetch then (idle kept)\<lparr>posted := msgs\<rparr>
                   else
                     (case process_page env page state of
                        Inl e \<Rightarrow> (idle kept)\<lparr>posted := msgs, uncaught := Some e\<rparr>
                      | Inr state1 \<Rightarrow> move_on i state1 msgs (Some page)))))"

text \<open>
  The end of the script, run on every page load:
  \<^verbatim>\<open>const state = getState();
   if (state) setTimeout(processScan, 3000); else window.postMessage({type: 'READY'})\<close>.
  \<^verbatim>\<open>processScan\<close> reads the store again when the timer fires.
\<close>

definition page_load :: "interruption \<Rightarrow> page_env \<Rightarrow> scan_state option \<Rightarrow> outcome" where
  "page_load i env st =
     (case st of
        None \<Rightarrow> (idle None)\<lparr>posted := [READY]\<rparr>
      | Some _ \<Rightarrow>
          (let st' = (if cancel_in_timer i then None else st)
           in if unloaded i = Some in_timer then idle st' else processScan i env st'))"

text \<open>
  What the host does to a tab: it loads a page (any page: the user may navigate), and
  the run of the script on it is interrupted or not.
\<close>

datatype host_event = Load interruption page_env

fun visit_list :: "page_visit option \<Rightarrow> page_visit list" where
  "visit_list None = []"
| "visit_list (Some v) = [v]"

text \<open>
  The visits processed, in order and each with the page it was processed on, and the
  state left in the store, over a sequence of page loads.
\<close>

fun resume :: "host_event list \<Rightarrow> scan_state option \<Rightarrow> (page_env \<times> page_visit) list \<times> scan_state option" where
  "resume [] st = ([], st)"
| "resume (Load i env # events) st =
     (let out = page_load i env st;
          (steps, st') = resume events (stored out)
      in (map (Pair env) (visit_list (extracted out)) @ steps, st'))"

text \<open>
  The host that goes where the script sends it and interrupts nothing: each page of
  the list is loaded at the URL the run before assigned to
  \<^verbatim>\<open>window.location.href\<close>; a run that assigns none ends the drive. The result is
  the visits processed, each with its page, the state left in the store, and the
  messages posted.
\<close>

fun drive :: "page_env list \<Rightarrow> string \<Rightarrow> scan_state option \<Rightarrow> (page_env \<times> page_visit) list \<times> scan_state option \<times> message list" where
  "drive [] url st = ([], st, [])"
| "drive (env # envs) url st =
     (let out = page_load quiet (env\<lparr>env_href := url\<rparr>) st;
          steps = map (Pair env) (visit_list (extracted out))
      in case location out of
           None \<Rightarrow> (steps, stored out, posted out)
         | Some url' \<Rightarrow>
             (case drive envs url' (stored out) of
                (steps', st', msgs) \<Rightarrow> (steps @ steps', st', posted out @ msgs)))"

section \<open>Popup and content script: the progress record\<close>

text \<open>
  The record under \<^verbatim>\<open>substackFriendFinderScanState\<close> in
  \<^verbatim>\<open>chrome.storage.local\<close>, and the one under \<^verbatim>\<open>substackFriendFinder\<close>.
  Times are milliseconds, as \<^verbatim>\<open>Date.now()\<close> gives them.
\<close>

record progress_record =
  pr_inProgress :: bool
  pr_current :: "nat option"
  pr_total :: "nat option"
  pr_name :: "string option"
  pr_newsletterCount :: "nat option"
  pr_matchCount :: "nat option"
  pr_timestamp :: "int option"

record cached_results =
  cr_matches :: "match list"
  cr_timestamp :: int

record local_storage =
  scanState :: "progress_record option"
  results :: "cached_results option"

text \<open>
  The content script's listener for the messages of the injected script
  (\<^verbatim>\<open>content.js\<close>), at time \<open>now\<close>: a scanning progress message is saved with
  \<^verbatim>\<open>timestamp: Date.now()\<close>, completion saves the matches and removes the progress
  record, an error removes it.
\<close>

fun content_on_message :: "int \<Rightarrow> local_storage \<Rightarrow> message \<Rightarrow> local_storage" where
  "content_on_message now ls READY = ls"
| "content_on_message now ls (PROGRESS_status _) = ls"
| "content_on_message now ls (PROGRESS_scanning p) =
     ls\<lparr>scanState :=
          Some \<lparr>pr_inProgress = True,
                pr_current = Some (sp_current p),
                pr_total = Some (sp_total p),
                pr_name = Some (sp_name p),
                pr_newsletterCount = Some (num_or (sp_newsletterCount p) ((sp_total p + 1) div 2)),
                pr_matchCount = Some (sp_matchCount p),
                pr_timestamp = Some now\<rparr>\<rparr>"
| "content_on_message now ls (COMPLETE ms) =
     ls\<lparr>results := Some \<lparr>cr_matches = ms, cr_timestamp = now\<rparr>, scanState := None\<rparr>"
| "content_on_message now ls (ERROR _) = ls\<lparr>scanState := None\<rparr>"

text \<open>
  A tab with both stores: the scan state of the injected script in
  \<^verbatim>\<open>sessionStorage\<close> and the records of \<^verbatim>\<open>chrome.storage.local\<close>. A page
  load at time \<open>now\<close> runs the injected script, interrupted or not, and passes its
  messages to the content script.
\<close>

record tab =
  session :: "scan_state option"
  local_store :: local_storage

definition tab_load :: "int \<Rightarrow> interruption \<Rightarrow> page_env \<Rightarrow> tab \<Rightarrow> tab \<times> message list" where
  "tab_load now i env t =
     (let out = page_load i env (session t)
      in (\<lparr>session = stored out,
           local_store = foldl (content_on_message now) (local_store t) (posted out)\<rparr>,
          posted out))"

datatype popup_section = form | progress | results_section | not_substack

text \<open>
  What the popup shows after its \<^verbatim>\<open>DOMContentLoaded\<close> handler, and what it
  leaves in \<^verbatim>\<open>chrome.storage.local\<close>: the section, the progress record the
  progress display was restored from (if it was), and the cached results displayed (if
  they were).
\<close>

record popup_view =
  shown :: popup_section
  progress_from :: "progress_record option"
  displayed :: "cached_results option"
  storage_after :: local_storage

definition ONE_HOUR :: int where
  "ONE_HOUR = 60 * 60 * 1000"

text \<open>
  \<^verbatim>\<open>scanState.timestamp && (Date.now() - scanState.timestamp > ONE_HOUR)\<close>; a
  missing or zero timestamp is falsy.
\<close>

definition is_stale :: "int \<Rightarrow> progress_record \<Rightarrow> bool" where
  "is_stale now scanSt =
     (case pr_timestamp scanSt of
        None \<Rightarrow> False
      | Some ts \<Rightarrow> ts \<noteq> 0 \<and> now - ts > ONE_HOUR)"

text \<open>
  \<^verbatim>\<open>tab.url && (tab.url.includes('substack.com') || tab.url.match(...))\<close>; the
  pattern \<^verbatim>\<open>/https?:\/\/[^/]+\.substack\.com/\<close> only matches a URL that includes
  \<^verbatim>\<open>substack.com\<close>, so the first test decides.
\<close>

definition isSubstack :: "string option \<Rightarrow> bool" where
  "isSubstack url = (case url of None \<Rightarrow> False | Some u \<Rightarrow> u \<noteq> [] \<and> str_includes u ''substack.com'')"

text \<open>
  The part after the scan-state check: cached results when there are matches, the
  form otherwise.
\<close>

definition show_cached :: "local_storage \<Rightarrow> popup_view" where
  "show_cached ls =
     (case results ls of
        None \<Rightarrow> \<lparr>shown = form, progress_from = None, displayed = None, storage_after = ls\<rparr>
      | Some cached \<Rightarrow>
          if length (cr_matches cached) > 0
          then \<lparr>shown = results_section, progress_from = None, displayed = Some cached,
                storage_after = ls\<rparr>
          else \<lparr>shown = form, progress_from = None, displayed = None, storage_after = ls\<rparr>)"

text \<open>The \<^verbatim>\<open>DOMContentLoaded\<close> handler of the popup, at time \<open>now\<close>.\<close>

definition popup_init :: "int \<Rightarrow> string option \<Rightarrow> local_storage \<Rightarrow> popup_view" where
  "popup_init now tab_url ls =
     (if \<not> isSubstack tab_url
      then \<lparr>shown = not_substack, progress_from = None, displayed = None, storage_after = ls\<rparr>
      else
        (case scanState ls of
           None \<Rightarrow> show_cached ls
         | Some scanSt \<Rightarrow>
             if pr_inProgress scanSt then
               (if is_stale now scanSt then show_cached (ls\<lparr>scanState := None\<rparr>)
                else \<lparr>shown = progress, progress_from = Some scanSt, displayed = None,
                      storage_after = ls\<rparr>)
             else show_cached ls))"

section \<open>Auxiliary notions for the proofs\<close>

text \<open>The page visit of an element of \<^verbatim>\<open>state.newsletters\<close> and a list kind.\<close>

definition visit_for :: "newsletter \<Rightarrow> page_type \<Rightarrow> page_visit" where
  "visit_for nl pt =
     \<lparr>pv_newsletterId = nl_id nl,
      pv_name = nl_name nl,
      pv_subdomain = nl_subdomain nl,
      pv_authorId = nl_authorId nl,
      pv_subscriberCount = nl_subscriberCount nl,
      pv_pageType = pt\<rparr>"

text \<open>
  A record needs no tracking for newsletter \<open>n\<close>: it has no handle, or its handle is
  bound and \<open>n\<close> is among the ids stored for it.
\<close>

definition seen :: "nat \<Rightarrow> appearances \<Rightarrow> user \<Rightarrow> bool" where
  "seen n a u =
     (case u_handle u of
        None \<Rightarrow> True
      | Some k \<Rightarrow> k = [] \<or> (\<exists>d. map_of a k = Some d \<and> n \<in> set (newsletterIds d)))"

text \<open>
  The publications of a subscription list that have a non-empty subdomain and a
  non-zero \<^verbatim>\<open>author_id\<close> or \<^verbatim>\<open>primary_user_id\<close>, in the order of the list.
\<close>

definition publications_kept :: "subscription list \<Rightarrow> publication list" where
  "publications_kept subs =
     filter (\<lambda>p. truthy_str (p_subdomain p)
                 \<and> (truthy_num (p_author_id p) \<or> truthy_num (p_primary_user_id p)))
       (List.map_filter sub_publication subs)"

text \<open>
  The appearance map after the records of the given visits, each extracted from its
  page, have been tracked one visit after the other.
\<close>

fun replay :: "(page_env \<times> page_visit) list \<Rightarrow> appearances \<Rightarrow> js_exception + appearances" where
  "replay [] apps = Inr apps"
| "replay ((env, page) # rest) apps =
     (case trackAppearances (pv_newsletterId page)
             (getUsersForPage env (pv_authorId page) (pv_pageType page)) apps of
        Inl e \<Rightarrow> Inl e
      | Inr apps' \<Rightarrow> replay rest apps')"

text \<open>A record whose handle names a property of \<^verbatim>\<open>Object.prototype\<close>.\<close>

definition reserved_handle :: "user \<Rightarrow> bool" where
  "reserved_handle u =
     (case u_handle u of None \<Rightarrow> False | Some key \<Rightarrow> key \<in> set object_prototype_keys)"

text \<open>
  The snapshot that a field-by-field merge would store: each field of the newer record
  when it is non-empty, the older field otherwise. It follows the wording of the
  specification (section 4.5), not the source, and is here to be compared with what
  the source stores.
\<close>

definition spec_merged_snapshot :: "user \<Rightarrow> user \<Rightarrow> user" where
  "spec_merged_snapshot older newer =
     \<lparr>u_id = (case u_id newer of None \<Rightarrow> u_id older | Some i \<Rightarrow> Some i),
      u_handle = or_str (u_handle newer) (u_handle older),
      u_name = or_str (u_name newer) (u_name older),
      u_bio = or_str (u_bio newer) (u_bio older),
      u_photo_url = or_str (u_photo_url newer) (u_photo_url older),
      u_primaryPublication =
        (case u_primaryPublication newer of
           None \<Rightarrow> u_primaryPublication older
         | Some pp \<Rightarrow> Some pp)\<rparr>"

section \<open>Example data\<close>

text \<open>A person first seen without a bio, and a later record of the same person with one.\<close>

definition alice_first :: user where
  "alice_first =
     \<lparr>u_id = Some 7, u_handle = Some ''alice'', u_name = Some ''Alice'', u_bio = None,
      u_photo_url = None, u_primaryPublication = None\<rparr>"

definition alice_later :: user where
  "alice_later =
     \<lparr>u_id = Some 7, u_handle = Some ''alice'', u_name = Some ''Alice B'',
      u_bio = Some ''writer'', u_photo_url = None, u_primaryPublication = None\<rparr>"

definition alice_stored :: appearances where
  "alice_stored = [(''alice'', \<lparr>profile = alice_first, newsletterIds = [1]\<rparr>)]"

text \<open>
  A finished scan of two newsletters for the seed user \<^verbatim>\<open>Me\<close>: the seed is
  in both lists, \<^verbatim>\<open>bob\<close> in one, \<^verbatim>\<open>carol\<close> in both.
\<close>

definition person :: "string \<Rightarrow> user" where
  "person h =
     \<lparr>u_id = None, u_handle = Some h, u_name = None, u_bio = None, u_photo_url = None,
      u_primaryPublication = None\<rparr>"

definition two_newsletters :: "newsletter list" where
  "two_newsletters =
     [\<lparr>nl_id = 1, nl_name = ''N1'', nl_subdomain = ''n1'', nl_authorId = 11,
       nl_subscriberCount = Some 100\<rparr>,
      \<lparr>nl_id = 2, nl_name = ''N2'', nl_subdomain = ''n2'', nl_authorId = 12,
       nl_subscriberCount = Some 1000000\<rparr>]"

definition finished_state :: scan_state where
  "finished_state =
     \<lparr>username = ''Me'',
      profileId = Some 1,
      newsletters = two_newsletters,
      pagesToVisit = [],
      currentPageIndex = 0,
      personAppearances =
        [(''me'', \<lparr>profile = person ''me'', newsletterIds = [1, 2]\<rparr>),
         (''bob'', \<lparr>profile = person ''bob'', newsletterIds = [1]\<rparr>),
         (''carol'', \<lparr>profile = person ''carol'', newsletterIds = [1, 2]\<rparr>)]\<rparr>"

text \<open>
  A stored state in which \<^verbatim>\<open>dave\<close> has two newsletter ids that are not ids of
  \<^verbatim>\<open>state.newsletters\<close>.
\<close>

definition orphan_state :: scan_state where
  "orphan_state =
     \<lparr>username = ''Me'',
      profileId = Some 1,
      newsletters = two_newsletters,
      pagesToVisit = [],
      currentPageIndex = 0,
      personAppearances = [(''dave'', \<lparr>profile = person ''dave'', newsletterIds = [8, 9]\<rparr>)]\<rparr>"

text \<open>
  A profile with three subscriptions: a publication of 500 subscribers, one without a
  subdomain, and one of 20 subscribers that names its author in
  \<^verbatim>\<open>primary_user_id\<close>.
\<close>

definition three_subscriptions :: "subscription list" where
  "three_subscriptions =
     [\<lparr>sub_publication =
         Some \<lparr>p_id = 1, p_name = ''Big'', p_subdomain = Some ''big'', p_author_id = Some 11,
               p_primary_user_id = None, p_subscriber_count = Some 500\<rparr>\<rparr>,
      \<lparr>sub_publication =
         Some \<lparr>p_id = 2, p_name = ''Nowhere'', p_subdomain = None, p_author_id = Some 12,
               p_primary_user_id = None, p_subscriber_count = Some 5\<rparr>\<rparr>,
      \<lparr>sub_publication =
         Some \<lparr>p_id = 3, p_name = ''Small'', p_subdomain = Some ''small'', p_author_id = None,
               p_primary_user_id = Some 13, p_subscriber_count = Some 20\<rparr>\<rparr>]"

definition seed_profile :: user_profile where
  "seed_profile =
     \<lparr>up_id = Some 1, up_name = Some ''Me'', up_subscriptions = Some three_subscriptions\<rparr>"

text \<open>
  A scan of the two newsletters at its start, and pages as the host may present them:
  one that yields nothing in any tier, one whose API response is empty while
  \<^verbatim>\<open>__NEXT_DATA__\<close> holds one user and the document shows a link to another.
\<close>

definition fresh_state :: scan_state where
  "fresh_state =
     \<lparr>username = ''Me'',
      profileId = Some 1,
      newsletters = two_newsletters,
      pagesToVisit = concat (map (\<lambda>nl. [visit_for nl subscribers, visit_for nl followers])
                              two_newsletters),
      currentPageIndex = 0,
      personAppearances = []\<rparr>"

definition empty_page :: page_env where
  "empty_page =
     \<lparr>env_href = ''https://substack.com/@n1/subscribers'',
      env_fetchSubscriberList = (\<lambda>authorId listType. None),
      env_nextData = None,
      env_profileLinks = []\<rparr>"

definition raw_person :: "string \<Rightarrow> raw_user" where
  "raw_person h =
     \<lparr>r_id = None, r_handle = Some h, r_username = None, r_name = None, r_bio = None,
      r_photo_url = None, r_primaryPublication = None\<rparr>"

definition fallback_page :: page_env where
  "fallback_page =
     \<lparr>env_href = ''https://substack.com/@n1/subscribers'',
      env_fetchSubscriberList = (\<lambda>authorId listType. Some \<lparr>subscriberLists = Some []\<rparr>),
      env_nextData =
        Some (Parsed (Some \<lparr>pp_subscriberLists = None,
                             pp_initialData =
                               Some [SubscriberList (Some [Group (Some [raw_person ''erin''])])],
                             pp_dehydratedState = None\<rparr>)),
      env_profileLinks =
        [\<lparr>l_href = ''/@frank?utm=x'', l_textContent = '' Frank '', l_card_bio = None,
          l_card_img = None\<rparr>]\<rparr>"

text \<open>The same empty page at a URL that is no page of the plan.\<close>

definition home_page :: page_env where
  "home_page = empty_page\<lparr>env_href := ''https://substack.com/home''\<rparr>"

text \<open>
  A tab in the middle of a scan whose progress record was written at time 1000, and a
  moment 61 minutes later.
\<close>

definition old_record :: progress_record where
  "old_record =
     \<lparr>pr_inProgress = True, pr_current = Some 1, pr_total = Some 4, pr_name = Some ''N1'',
      pr_newsletterCount = Some 2, pr_matchCount = Some 0, pr_timestamp = Some 1000\<rparr>"

definition old_tab :: tab where
  "old_tab =
     \<lparr>session = Some fresh_state,
      local_store = \<lparr>scanState = Some old_record, results = None\<rparr>\<rparr>"

definition later :: int where
  "later = 1000 + 61 * 60 * 1000"

text \<open>
  A page whose API response lists a user with the handle \<^verbatim>\<open>constructor\<close>, and
  one whose response lists \<^verbatim>\<open>erin\<close>.
\<close>

definition api_page :: "string \<Rightarrow> page_env" where
  "api_page h =
     \<lparr>env_href = ''https://substack.com/@n1/subscribers'',
      env_fetchSubscriberList =
        (\<lambda>authorId listType.
           Some \<lparr>subscriberLists = Some [SubscriberList (Some [Group (Some [raw_person h])])]\<rparr>),
      env_nextData = None,
      env_profileLinks = []\<rparr>"

text \<open>
  Page loads with a cancel while the first visit is fetched and a cancel in the delay
  after the second; and the pages of a host that follows every navigation.
\<close>

definition interrupted_loads :: "host_event list" where
  "interrupted_loads =
     [Load quiet home_page,
      Load (quiet\<lparr>cancel_in_fetch := True\<rparr>) (api_page ''erin''),
      Load (quiet\<lparr>cancel_in_delay := True\<rparr>) (api_page ''erin''),
      Load quiet (api_page ''erin'')]"

definition followed_pages :: "page_env list" where
  "followed_pages =
     [home_page, api_page ''erin'', api_page ''erin'', empty_page, api_page ''erin'']"

section \<open>Appearance tracking: lookups after each step\<close>

lemma property_of_Own [simp]: "property_of a k = Own d \<longleftrightarrow> map_of a k = Some d"
  by (auto simp: property_of_def split: option.splits)

lemma property_of_Absent:
  "property_of a k = Absent \<longleftrightarrow> map_of a k = None \<and> k \<notin> set object_prototype_keys"
  by (auto simp: property_of_def split: option.splits)

lemma property_of_Inherited:
  "property_of a k = Inherited \<longleftrightarrow> map_of a k = None \<and> k \<in> set object_prototype_keys"
  by (auto simp: property_of_def split: option.splits)

lemma map_of_ensure_entry:
  "map_of (ensure_entry k u a) k' =
     (if k' = k \<and> property_of a k = Absent then Some \<lparr>profile = u, newsletterIds = []\<rparr>
      else map_of a k')"
  by (auto simp: ensure_entry_def property_of_def map_add_def split: option.splits looked_up.splits)

lemma add_newsletter_result:
  "add_newsletter k n a = Inr a' \<Longrightarrow>
   \<exists>d. map_of a k = Some d
     \<and> map_of a' = (map_of a)(k \<mapsto> (if n \<in> set (newsletterIds d) then d
                                   else d\<lparr>newsletterIds := newsletterIds d @ [n]\<rparr>))"
  by (auto simp: add_newsletter_def property_of_def update_conv' map_upd_triv
      split: option.splits looked_up.splits if_splits)

lemma add_newsletter_present:
  "map_of a k = Some d \<Longrightarrow> n \<in> set (newsletterIds d) \<Longrightarrow> add_newsletter k n a = Inr a"
  by (simp add: add_newsletter_def property_of_def)

lemma track_user_Inr:
  "track_user n a u = Inr a' \<longleftrightarrow>
     (case u_handle u of
        None \<Rightarrow> a' = a
      | Some k \<Rightarrow> if k = [] then a' = a else add_newsletter k n (ensure_entry k u a) = Inr a')"
  by (auto simp: track_user_def split: option.splits)

lemma add_newsletter_has:
  assumes "add_newsletter k n a = Inr a'"
  shows "\<exists>d'. map_of a' k = Some d' \<and> n \<in> set (newsletterIds d')"
proof -
  from add_newsletter_result [OF assms] obtain d where
    "map_of a' = (map_of a)(k \<mapsto> (if n \<in> set (newsletterIds d) then d
                                   else d\<lparr>newsletterIds := newsletterIds d @ [n]\<rparr>))"
    by blast
  then show ?thesis by simp
qed

lemma add_newsletter_keeps:
  assumes "add_newsletter k n a = Inr a'" and "map_of a k' = Some d" and "n \<in> set (newsletterIds d)"
  shows "\<exists>d'. map_of a' k' = Some d' \<and> n \<in> set (newsletterIds d')"
proof -
  from add_newsletter_result [OF assms(1)] obtain e where
    "map_of a' = (map_of a)(k \<mapsto> (if n \<in> set (newsletterIds e) then e
                                   else e\<lparr>newsletterIds := newsletterIds e @ [n]\<rparr>))"
    by blast
  with assms(2,3) show ?thesis by (cases "k' = k") simp_all
qed

lemma ensure_entry_keeps: "map_of a k' = Some d \<Longrightarrow> map_of (ensure_entry k u a) k' = Some d"
  by (auto simp: map_of_ensure_entry property_of_Absent)

lemma track_user_seen_self:
  assumes "track_user n a u = Inr a'"
  shows "seen n a' u"
proof (cases "u_handle u")
  case None
  then show ?thesis by (simp add: seen_def)
next
  case (Some k)
  show ?thesis
  proof (cases "k = []")
    case True
    with Some show ?thesis by (simp add: seen_def)
  next
    case False
    with Some assms have "add_newsletter k n (ensure_entry k u a) = Inr a'"
      by (simp add: track_user_def)
    from add_newsletter_has [OF this] Some show ?thesis by (simp add: seen_def)
  qed
qed

lemma track_user_keeps:
  assumes "track_user n a v = Inr a'" and "map_of a k' = Some d" and "n \<in> set (newsletterIds d)"
  shows "\<exists>d'. map_of a' k' = Some d' \<and> n \<in> set (newsletterIds d')"
proof (cases "u_handle v")
  case None
  with assms show ?thesis by (simp add: track_user_def)
next
  case (Some k)
  show ?thesis
  proof (cases "k = []")
    case True
    with Some assms show ?thesis by (simp add: track_user_def)
  next
    case False
    with Some assms(1) have "add_newsletter k n (ensure_entry k v a) = Inr a'"
      by (simp add: track_user_def)
    from add_newsletter_keeps [OF this ensure_entry_keeps [OF assms(2)] assms(3)]
    show ?thesis .
  qed
qed

lemma track_user_seen_mono:
  assumes "seen n a u" and "track_user n a v = Inr a'"
  shows "seen n a' u"
proof (cases "u_handle u")
  case None
  then show ?thesis by (simp add: seen_def)
next
  case (Some k)
  show ?thesis
  proof (cases "k = []")
    case True
    with Some show ?thesis by (simp add: seen_def)
  next
    case False
    with Some assms(1) obtain d where "map_of a k = Some d" "n \<in> set (newsletterIds d)"
      by (auto simp: seen_def)
    from track_user_keeps [OF assms(2) this] Some show ?thesis by (simp add: seen_def)
  qed
qed

lemma track_user_fixed: "seen n a u \<Longrightarrow> track_user n a u = Inr a"
  by (auto simp: seen_def track_user_def ensure_entry_def add_newsletter_def property_of_def
      split: option.splits)

lemma trackAppearances_seen_mono:
  "seen n a u \<Longrightarrow> trackAppearances n us a = Inr a' \<Longrightarrow> seen n a' u"
  by (induction us arbitrary: a) (auto split: sum.splits dest: track_user_seen_mono)

lemma trackAppearances_seen_all:
  "trackAppearances n us a = Inr a' \<Longrightarrow> u \<in> set us \<Longrightarrow> seen n a' u"
  by (induction us arbitrary: a)
    (auto split: sum.splits dest: track_user_seen_self trackAppearances_seen_mono)

lemma trackAppearances_fixed: "\<forall>u \<in> set us. seen n a u \<Longrightarrow> trackAppearances n us a = Inr a"
  by (induction us) (auto simp: track_user_fixed)

lemma add_newsletter_twice:
  "(case add_newsletter k n a of Inl e \<Rightarrow> Inl e | Inr a' \<Rightarrow> add_newsletter k n a')
     = add_newsletter k n a"
proof (cases "add_newsletter k n a")
  case (Inl e)
  then show ?thesis by simp
next
  case (Inr a')
  from add_newsletter_result [OF Inr]
  have "\<exists>d'. map_of a' k = Some d' \<and> n \<in> set (newsletterIds d')"
    by (auto split: if_splits)
  then have "add_newsletter k n a' = Inr a'"
    by (auto intro: add_newsletter_present)
  with Inr show ?thesis by simp
qed

section \<open>C9: the appearance tracking is idempotent\<close>

lemma trackAppearances_twice:
  "(case trackAppearances n us a of Inl e \<Rightarrow> Inl e | Inr a' \<Rightarrow> trackAppearances n us a')
     = trackAppearances n us a"
proof (cases "trackAppearances n us a")
  case (Inl e)
  then show ?thesis by simp
next
  case (Inr a')
  then have "trackAppearances n us a' = Inr a'"
    by (intro trackAppearances_fixed) (auto dest: trackAppearances_seen_all)
  with Inr show ?thesis by simp
qed

lemma process_page_twice:
  "(case process_page env page st of
      Inl e \<Rightarrow> Inl e
    | Inr st' \<Rightarrow> map_sum id personAppearances (process_page env page st'))
     = map_sum id personAppearances (process_page env page st)"
proof (cases "trackAppearances (pv_newsletterId page)
                (getUsersForPage env (pv_authorId page) (pv_pageType page)) (personAppearances st)")
  case (Inl e)
  then show ?thesis by (simp add: process_page_def)
next
  case (Inr a')
  with trackAppearances_twice [of "pv_newsletterId page"
      "getUsersForPage env (pv_authorId page) (pv_pageType page)" "personAppearances st"]
  show ?thesis by (simp add: process_page_def)
qed

text \<open>
  C9. Tracking the same extracted list a second time for the same page visit (the same
  newsletter id) changes nothing: when the first pass ends without an exception, so
  does the second, and the whole appearance map, and so the newsletter-id set of every
  handle, is what it was after the first pass; when the first pass throws there is no
  second. The same holds of processing the same page twice for the same visit, and of
  adding a newsletter id that a handle already has.
\<close>

theorem trackAppearances_idempotent:
  "(case trackAppearances n us a of Inl e \<Rightarrow> Inl e | Inr a' \<Rightarrow> trackAppearances n us a')
     = trackAppearances n us a
   \<and> (case process_page env page st of
         Inl e \<Rightarrow> Inl e
       | Inr st' \<Rightarrow> map_sum id personAppearances (process_page env page st'))
       = map_sum id personAppearances (process_page env page st)
   \<and> (case add_newsletter k n a of Inl e \<Rightarrow> Inl e | Inr a' \<Rightarrow> add_newsletter k n a')
       = add_newsletter k n a"
  by (simp add: trackAppearances_twice process_page_twice add_newsletter_twice)

section \<open>One run of the script\<close>

lemma process_page_Inr:
  "process_page env page st = Inr st1 \<longleftrightarrow>
     (\<exists>a'. trackAppearances (pv_newsletterId page)
              (getUsersForPage env (pv_authorId page) (pv_pageType page))
              (personAppearances st) = Inr a'
        \<and> st1 = st\<lparr>personAppearances := a', currentPageIndex := currentPageIndex st + 1\<rparr>)"
  by (auto simp: process_page_def Let_def split: sum.splits)

lemma move_on_fields:
  "extracted (move_on i st msgs visit) = visit"
  "uncaught (move_on i st msgs visit) = None"
  "stored (move_on i st msgs visit) = None \<or> stored (move_on i st msgs visit) = Some st"
  by (auto simp: move_on_def Let_def finishScan_def)

lemma processScan_cases:
  "(extracted (processScan i env (Some st)) = None
      \<and> (stored (processScan i env (Some st)) = None
          \<or> stored (processScan i env (Some st)) = Some st))
   \<or> (\<exists>page st1. page_to_process env st = Some page
         \<and> process_page env page st = Inr st1
         \<and> extracted (processScan i env (Some st)) = Some page
         \<and> (stored (processScan i env (Some st)) = None
             \<or> stored (processScan i env (Some st)) = Some st1))"
proof (cases "page_to_process env st")
  case None
  then show ?thesis
    using move_on_fields(3) [of i st "[]" None]
    by (auto simp: processScan_def move_on_fields)
next
  case (Some page)
  show ?thesis
  proof (cases "unloaded i = Some in_fetch")
    case True
    with Some show ?thesis by (simp add: processScan_def Let_def idle_def)
  next
    case False
    show ?thesis
    proof (cases "process_page env page st")
      case (Inl e)
      with Some False show ?thesis by (simp add: processScan_def Let_def idle_def)
    next
      case (Inr st1)
      with Some False show ?thesis
        using move_on_fields(3) [of i st1 "[scanning_message st page]" "Some page"]
        by (simp add: processScan_def Let_def move_on_fields)
    qed
  qed
qed

lemma page_load_cases:
  "(extracted (page_load i env (Some st)) = None
      \<and> (stored (page_load i env (Some st)) = None
          \<or> stored (page_load i env (Some st)) = Some st))
   \<or> (\<exists>page st1. page_to_process env st = Some page
         \<and> process_page env page st = Inr st1
         \<and> extracted (page_load i env (Some st)) = Some page
         \<and> (stored (page_load i env (Some st)) = None
             \<or> stored (page_load i env (Some st)) = Some st1))"
proof (cases "unloaded i = Some in_timer \<or> cancel_in_timer i")
  case True
  then show ?thesis by (auto simp: page_load_def Let_def idle_def processScan_def)
next
  case False
  then have "page_load i env (Some st) = processScan i env (Some st)"
    by (simp add: page_load_def)
  then show ?thesis using processScan_cases [of i env st] by simp
qed

section \<open>C8: the stored profile snapshot\<close>

lemma track_user_profile:
  assumes "track_user n a u = Inr a'" and "map_of a k = Some d"
  shows "map_option profile (map_of a' k) = Some (profile d)"
proof (cases "u_handle u")
  case None
  with assms show ?thesis by (simp add: track_user_def)
next
  case (Some h)
  show ?thesis
  proof (cases "h = []")
    case True
    with Some assms show ?thesis by (simp add: track_user_def)
  next
    case False
    with Some assms(1) have r: "add_newsletter h n (ensure_entry h u a) = Inr a'"
      by (simp add: track_user_def)
    from add_newsletter_result [OF r] obtain e where
      e: "map_of (ensure_entry h u a) h = Some e"
      and m: "map_of a' = (map_of (ensure_entry h u a))(h \<mapsto> (if n \<in> set (newsletterIds e) then e
                                   else e\<lparr>newsletterIds := newsletterIds e @ [n]\<rparr>))"
      by blast
    from ensure_entry_keeps [OF assms(2)] have k: "map_of (ensure_entry h u a) k = Some d" .
    show ?thesis
    proof (cases "k = h")
      case True
      with e k have "e = d" by simp
      with m True show ?thesis by simp
    next
      case False
      with m k show ?thesis by simp
    qed
  qed
qed

lemma trackAppearances_profile:
  "trackAppearances n us a = Inr a' \<Longrightarrow> map_of a k = Some d \<Longrightarrow>
   map_option profile (map_of a' k) = Some (profile d)"
proof (induction us arbitrary: a d)
  case Nil
  then show ?case by simp
next
  case (Cons u us)
  from Cons.prems(1) obtain a1 where t: "track_user n a u = Inr a1"
    and r: "trackAppearances n us a1 = Inr a'"
    by (auto split: sum.splits)
  from track_user_profile [OF t Cons.prems(2)]
  obtain d1 where d1: "map_of a1 k = Some d1" "profile d1 = profile d" by auto
  from Cons.IH [OF r d1(1)] d1(2) show ?case by simp
qed

text \<open>
  C8, as the source has it. The snapshot of a person is written once, when the handle
  is first seen (\<^verbatim>\<open>profile: user\<close> in the branch that creates the entry), and
  no later record touches it: for a handle already bound, tracking any list of records
  for any newsletter leaves the stored profile exactly as it was, in the map that the
  tracking returns and in the state that a run of \<^verbatim>\<open>processScan\<close> leaves in
  the store, however the run is interrupted. In particular no known field is ever
  replaced by an empty one.
\<close>

theorem profile_first_write_wins:
  assumes "map_of a k = Some d"
  shows "(case trackAppearances n us a of
            Inl e \<Rightarrow> True
          | Inr a' \<Rightarrow> map_option profile (map_of a' k) = Some (profile d))
     \<and> (case stored (processScan i env (Some (st\<lparr>personAppearances := a\<rparr>))) of
           None \<Rightarrow> True
         | Some st' \<Rightarrow> map_option profile (map_of (personAppearances st') k) = Some (profile d))"
proof
  show "case trackAppearances n us a of
            Inl e \<Rightarrow> True
          | Inr a' \<Rightarrow> map_option profile (map_of a' k) = Some (profile d)"
    using trackAppearances_profile [OF _ assms] by (simp split: sum.splits)
next
  let ?st = "st\<lparr>personAppearances := a\<rparr>"
  from processScan_cases [of i env ?st]
  show "case stored (processScan i env (Some ?st)) of
           None \<Rightarrow> True
         | Some st' \<Rightarrow> map_option profile (map_of (personAppearances st') k) = Some (profile d)"
  proof (elim disjE conjE exE)
    assume "stored (processScan i env (Some ?st)) = None"
    then show ?thesis by simp
  next
    assume "stored (processScan i env (Some ?st)) = Some ?st"
    with assms show ?thesis by simp
  next
    fix page st1
    assume "stored (processScan i env (Some ?st)) = None"
    then show ?thesis by simp
  next
    fix page st1
    assume p: "process_page env page ?st = Inr st1"
      and s: "stored (processScan i env (Some ?st)) = Some st1"
    from p obtain a' where "trackAppearances (pv_newsletterId page)
              (getUsersForPage env (pv_authorId page) (pv_pageType page)) a = Inr a'"
      and "personAppearances st1 = a'"
      by (auto simp: process_page_Inr)
    with trackAppearances_profile [OF _ assms] s show ?thesis by simp
  qed
qed

theorem profile_first_write_wins_witness:
  "map_of alice_stored ''alice'' = Some \<lparr>profile = alice_first, newsletterIds = [1]\<rparr>
   \<and> trackAppearances 2 [alice_later] alice_stored
       = Inr [(''alice'', \<lparr>profile = alice_first, newsletterIds = [1, 2]\<rparr>)]
   \<and> map_option profile (map_of [(''alice'', \<lparr>profile = alice_first, newsletterIds = [1, 2]\<rparr>)] ''alice'')
       = Some alice_first"
proof -
  have h: "map_of alice_stored ''alice'' = Some \<lparr>profile = alice_first, newsletterIds = [1]\<rparr>"
    by (simp add: alice_stored_def)
  have t: "trackAppearances 2 [alice_later] alice_stored
       = Inr [(''alice'', \<lparr>profile = alice_first, newsletterIds = [1, 2]\<rparr>)]"
    by (simp add: track_user_def ensure_entry_def add_newsletter_def property_of_def
        alice_stored_def alice_later_def)
  from profile_first_write_wins [OF h, of 2 "[alice_later]"] h t show ?thesis by simp
qed

text \<open>
  C8, as the specification words it, fails: \<^verbatim>\<open>alice\<close> was first seen without a
  bio; a later record of her carries the bio \<^verbatim>\<open>writer\<close>; after it is tracked the
  stored snapshot is still the first record, without the bio that a last-write-wins
  merge would have stored.
\<close>

theorem snapshot_merge_counterexample:
  "trackAppearances 2 [alice_later] alice_stored
     = Inr [(''alice'', \<lparr>profile = alice_first, newsletterIds = [1, 2]\<rparr>)]
   \<and> u_bio alice_later = Some ''writer''
   \<and> u_bio alice_first = None
   \<and> u_bio (spec_merged_snapshot alice_first alice_later) = Some ''writer''"
  by (simp add: track_user_def ensure_entry_def add_newsletter_def property_of_def
      alice_stored_def alice_first_def alice_later_def spec_merged_snapshot_def or_str_def)

section \<open>The invariant of the appearance map\<close>

lemma wf_appearances_iff:
  "wf_appearances a \<longleftrightarrow>
     distinct (map fst a) \<and>
     (\<forall>k d. map_of a k = Some d \<longrightarrow>
        k \<noteq> [] \<and> u_handle (profile d) = Some k \<and> distinct (newsletterIds d))"
  unfolding wf_appearances_def list_all_iff
  by (cases "distinct (map fst a)") (fastforce simp: map_of_eq_Some_iff)+

lemma distinct_ensure_entry:
  "distinct (map fst a) \<Longrightarrow> distinct (map fst (ensure_entry k u a))"
  by (auto simp: ensure_entry_def property_of_Absent map_of_eq_None_iff split: looked_up.splits)

lemma distinct_add_newsletter:
  "add_newsletter k n a = Inr a' \<Longrightarrow> distinct (map fst a) \<Longrightarrow> distinct (map fst a')"
  by (auto simp: add_newsletter_def distinct_update split: looked_up.splits if_splits)

lemma wf_track_user:
  assumes "wf_appearances a" and "track_user n a u = Inr a'"
  shows "wf_appearances a'"
proof (cases "u_handle u")
  case None
  with assms show ?thesis by (simp add: track_user_def)
next
  case (Some h)
  show ?thesis
  proof (cases "h = []")
    case True
    with Some assms show ?thesis by (simp add: track_user_def)
  next
    case False
    let ?a0 = "ensure_entry h u a"
    from Some False assms(2) have r: "add_newsletter h n ?a0 = Inr a'"
      by (simp add: track_user_def)
    from assms(1) have w0: "wf_appearances ?a0"
      unfolding wf_appearances_iff using Some False
      by (auto simp: distinct_ensure_entry map_of_ensure_entry split: if_splits)
    from add_newsletter_result [OF r] obtain e where
      e: "map_of ?a0 h = Some e"
      and m: "map_of a' = (map_of ?a0)(h \<mapsto> (if n \<in> set (newsletterIds e) then e
                                   else e\<lparr>newsletterIds := newsletterIds e @ [n]\<rparr>))"
      by blast
    from w0 e have we: "h \<noteq> []" "u_handle (profile e) = Some h" "distinct (newsletterIds e)"
      by (auto simp: wf_appearances_iff)
    show ?thesis
      unfolding wf_appearances_iff
    proof (intro conjI allI impI)
      show "distinct (map fst a')"
        using distinct_add_newsletter [OF r] w0 by (simp add: wf_appearances_iff)
    next
      fix k d
      assume kd: "map_of a' k = Some d"
      show "k \<noteq> []" "u_handle (profile d) = Some k" "distinct (newsletterIds d)"
        using kd m we w0 by (auto simp: wf_appearances_iff split: if_splits)
    qed
  qed
qed

lemma wf_empty: "wf_appearances []"
  by (simp add: wf_appearances_def)

lemma wf_trackAppearances:
  "wf_appearances a \<Longrightarrow> trackAppearances n us a = Inr a' \<Longrightarrow> wf_appearances a'"
  by (induction us arbitrary: a) (auto split: sum.splits dest: wf_track_user)

lemma wf_process_page:
  "wf_appearances (personAppearances st) \<Longrightarrow> process_page env page st = Inr st' \<Longrightarrow>
   wf_appearances (personAppearances st')"
  by (auto simp: process_page_Inr dest: wf_trackAppearances)

section \<open>C6, C10: the scorer\<close>

lemma set_map_filter: "set (List.map_filter f xs) = {y. \<exists>x\<in>set xs. f x = Some y}"
  by (induction xs) (auto simp: map_filter_simps split: option.splits)

lemma score_loop_eq:
  "score_loop nm ids (s, sh) =
     (s + sum_list (map (\<lambda>nl. computeNichenessWeight (nl_subscriberCount nl))
                      (List.map_filter nm ids)),
      sh @ List.map_filter nm ids)"
  by (induction ids arbitrary: s sh) (auto simp: map_filter_simps split: option.splits)

lemma match_of_Some:
  "match_of st (k, d) = Some m \<Longrightarrow>
     toLowerCase k \<noteq> toLowerCase (username st) \<and> 2 \<le> length (newsletterIds d)
     \<and> m_user m = match_user_of (profile d)"
  by (auto simp: match_of_def split: if_splits prod.splits)

lemma set_object_entries: "set (object_entries obj) = set obj"
  by (auto simp: object_entries_def)

lemma in_collect_matches:
  "m \<in> set (collect_matches st) \<longleftrightarrow> (\<exists>e \<in> set (personAppearances st). match_of st e = Some m)"
  by (auto simp: collect_matches_def set_map_filter set_object_entries)

text \<open>
  A handle that is an array index is walked before the handles created earlier.
\<close>

lemma object_entries_example:
  "object_entries [(''bob'', x), (''42'', y), (''carol'', z), (''7'', w)]
     = [(''7'', w), (''42'', y), (''bob'', x), (''carol'', z)]"
  by (simp add: object_entries_def digit_value_def)

lemma completed_finishScan:
  "set (completed (posted (finishScan st))) = set (collect_matches st)"
  by (simp add: finishScan_def)

lemma match_username:
  assumes wf: "wf_appearances (personAppearances st)"
    and m: "m \<in> set (completed (posted (finishScan st)))"
  shows "\<exists>d. (mu_username (m_user m), d) \<in> set (personAppearances st)
           \<and> toLowerCase (mu_username (m_user m)) \<noteq> toLowerCase (username st)
           \<and> 2 \<le> length (newsletterIds d)"
proof -
  from m obtain k d where e: "(k, d) \<in> set (personAppearances st)"
    and mo: "match_of st (k, d) = Some m"
    by (auto simp: completed_finishScan in_collect_matches)
  from wf e have h: "u_handle (profile d) = Some k"
    by (auto simp: wf_appearances_def list_all_iff)
  from match_of_Some [OF mo] h have "mu_username (m_user m) = k"
    and "toLowerCase k \<noteq> toLowerCase (username st)" "2 \<le> length (newsletterIds d)"
    by (auto simp: match_user_of_def)
  with e show ?thesis by auto
qed

text \<open>
  C6. On an appearance map as the tracking builds it (\<open>wf_appearances\<close>, which holds
  of the empty map and is kept by every processed page), the matches that
  \<^verbatim>\<open>finishScan\<close> sends contain no entry whose username is the seed user's
  (compared in lower case, as the source does), and no entry for a person whose
  newsletter-id set has fewer than 2 elements. The threshold 2 is a literal of the
  source.
\<close>

theorem finishScan_excludes:
  assumes wf: "wf_appearances (personAppearances st)"
  shows "toLowerCase (username st)
           \<notin> set (map (\<lambda>m. toLowerCase (mu_username (m_user m)))
                    (completed (posted (finishScan st))))
     \<and> (\<forall>k d. (k, d) \<in> set (personAppearances st) \<and> card (set (newsletterIds d)) < 2
            \<longrightarrow> k \<notin> set (map (\<lambda>m. mu_username (m_user m))
                           (completed (posted (finishScan st)))))"
proof (intro conjI allI impI)
  show "toLowerCase (username st)
           \<notin> set (map (\<lambda>m. toLowerCase (mu_username (m_user m)))
                    (completed (posted (finishScan st))))"
    using match_username [OF wf] by fastforce
next
  fix k d
  assume a: "(k, d) \<in> set (personAppearances st) \<and> card (set (newsletterIds d)) < 2"
  show "k \<notin> set (map (\<lambda>m. mu_username (m_user m)) (completed (posted (finishScan st))))"
  proof
    assume "k \<in> set (map (\<lambda>m. mu_username (m_user m)) (completed (posted (finishScan st))))"
    then obtain m where "m \<in> set (completed (posted (finishScan st)))"
      "mu_username (m_user m) = k"
      by auto
    with match_username [OF wf] obtain d' where e': "(k, d') \<in> set (personAppearances st)"
      and two: "2 \<le> length (newsletterIds d')"
      by blast
    from wf have "distinct (map fst (personAppearances st))"
      by (simp add: wf_appearances_def)
    with a e' have "d' = d" by (metis eq_key_imp_eq_value)
    moreover from wf a have "distinct (newsletterIds d)"
      by (auto simp: wf_appearances_def list_all_iff)
    then have "card (set (newsletterIds d)) = length (newsletterIds d)"
      by (rule distinct_card)
    ultimately show False using a two by simp
  qed
qed

lemma wf_finished_state: "wf_appearances (personAppearances finished_state)"
  by (simp add: wf_appearances_def finished_state_def person_def)

theorem finishScan_excludes_witness:
  "wf_appearances (personAppearances finished_state)
   \<and> toLowerCase (username finished_state) = ''me''
   \<and> ''me'' \<notin> set (map (\<lambda>m. toLowerCase (mu_username (m_user m)))
                      (completed (posted (finishScan finished_state))))
   \<and> (''bob'', \<lparr>profile = person ''bob'', newsletterIds = [1]\<rparr>)
       \<in> set (personAppearances finished_state)
   \<and> card (set [1::nat]) < 2
   \<and> ''bob'' \<notin> set (map (\<lambda>m. mu_username (m_user m))
                       (completed (posted (finishScan finished_state))))"
proof -
  have e1: "(''bob'', \<lparr>profile = person ''bob'', newsletterIds = [1]\<rparr>)
      \<in> set (personAppearances finished_state)"
    by (simp add: finished_state_def)
  have l: "toLowerCase (username finished_state) = ''me''"
    by (simp add: finished_state_def toLowerCase_def lower_char_def upper_case_def
        lower_case_def)
  from finishScan_excludes [OF wf_finished_state] e1
  have "toLowerCase (username finished_state)
           \<notin> set (map (\<lambda>m. toLowerCase (mu_username (m_user m)))
                    (completed (posted (finishScan finished_state))))
     \<and> ''bob'' \<notin> set (map (\<lambda>m. mu_username (m_user m))
                         (completed (posted (finishScan finished_state))))"
    by fastforce
  with wf_finished_state e1 l show ?thesis by simp
qed

text \<open>The third person of the example, in both lists and not the seed, is the one match.\<close>

lemma finished_state_matches:
  "map (\<lambda>m. mu_username (m_user m)) (completed (posted (finishScan finished_state)))
     = [''carol'']"
  by (simp add: finishScan_def collect_matches_def object_entries_def digit_value_def map_filter_simps
      match_of_def finished_state_def toLowerCase_def lower_char_def upper_case_def
      lower_case_def person_def match_user_of_def split: prod.splits)

text \<open>
  Her score is the sum of the two nicheness weights (her profile earns no quality
  bonus): the base score of the worked example.
\<close>

lemma finished_state_score:
  "map m_score (completed (posted (finishScan finished_state)))
     = [computeNichenessWeight (Some 100) + computeNichenessWeight (Some 1000000)]"
  by (simp add: finishScan_def collect_matches_def object_entries_def digit_value_def map_filter_simps
      match_of_def finished_state_def toLowerCase_def lower_char_def upper_case_def
      lower_case_def person_def newsletterMap_def two_newsletters_def computeQualityScore_def
      split: prod.splits)

text \<open>
  C10. The skip test of \<^verbatim>\<open>finishScan\<close> reads the length of the raw
  \<^verbatim>\<open>newsletterIds\<close>; the score sums the weights of, and
  \<^verbatim>\<open>sharedNewsletters\<close> lists, only the ids that \<^verbatim>\<open>newsletterMap\<close> resolves.
  So a match can be sent with fewer shared newsletters than the threshold: in
  \<open>orphan_state\<close> the two ids of \<^verbatim>\<open>dave\<close> resolve to nothing and he is sent as a
  match with an empty list.
\<close>

theorem overlap_test_on_raw_ids:
  "map_option (\<lambda>m. (m_score m, m_sharedNewsletters m)) (match_of st (h, d)) =
     (if toLowerCase h = toLowerCase (username st) \<or> length (newsletterIds d) < 2 then None
      else (let shared = List.map_filter (newsletterMap (newsletters st)) (newsletterIds d)
            in Some (sum_list (map (\<lambda>nl. computeNichenessWeight (nl_subscriberCount nl)) shared)
                       + computeQualityScore (profile d) * (1 / 10),
                     shared)))
   \<and> map (\<lambda>m. (mu_username (m_user m), m_sharedNewsletters m))
         (completed (posted (finishScan orphan_state))) = [(''dave'', [])]"
proof
  show "map_option (\<lambda>m. (m_score m, m_sharedNewsletters m)) (match_of st (h, d)) =
     (if toLowerCase h = toLowerCase (username st) \<or> length (newsletterIds d) < 2 then None
      else (let shared = List.map_filter (newsletterMap (newsletters st)) (newsletterIds d)
            in Some (sum_list (map (\<lambda>nl. computeNichenessWeight (nl_subscriberCount nl)) shared)
                       + computeQualityScore (profile d) * (1 / 10),
                     shared)))"
    by (simp add: match_of_def score_loop_eq Let_def)
  show "map (\<lambda>m. (mu_username (m_user m), m_sharedNewsletters m))
         (completed (posted (finishScan orphan_state))) = [(''dave'', [])]"
    by (simp add: finishScan_def collect_matches_def object_entries_def digit_value_def map_filter_simps
        match_of_def orphan_state_def toLowerCase_def lower_char_def upper_case_def
        lower_case_def person_def match_user_of_def newsletterMap_def two_newsletters_def
        split: prod.splits)
qed

section \<open>C4, C5: the nicheness weight\<close>

text \<open>
  For a positive count the weight is the documented \<open>1 / ln (count + 2)\<close>, for a
  missing count it is that of a count of 1000, and over positive counts it is strictly
  decreasing.
\<close>

lemma weight_positive_count:
  "0 < c \<Longrightarrow> computeNichenessWeight (Some c) = 1 / ln (real c + 2)"
  by (simp add: computeNichenessWeight_def num_or_def)

lemma weight_unknown_count: "computeNichenessWeight None = 1 / ln 1002"
  by (simp add: computeNichenessWeight_def num_or_def)

lemma weight_decreasing_on_positive_counts:
  "0 < a \<Longrightarrow> a < b \<Longrightarrow> computeNichenessWeight (Some b) < computeNichenessWeight (Some a)"
  by (simp add: computeNichenessWeight_def num_or_def frac_less2)

text \<open>
  Bounds on the two logarithms of the worked example, from bounds on the exponential:
  \<open>exp\<close> of a small argument is enclosed by its quadratic Taylor polynomials, and
  squaring doubles the argument.
\<close>

lemma exp_upper_step:
  fixes a b y z :: real
  assumes "exp y \<le> a" and "a\<^sup>2 \<le> b" and "z = 2 * y"
  shows "exp z \<le> b"
proof -
  have "exp z = (exp y)\<^sup>2"
    using assms(3) by (simp add: exp_double)
  also have "\<dots> \<le> a\<^sup>2"
    using assms(1) by (intro power_mono) simp_all
  finally show ?thesis using assms(2) by simp
qed

lemma exp_lower_step:
  fixes a b y z :: real
  assumes "a \<le> exp y" and "0 \<le> a" and "b \<le> a\<^sup>2" and "z = 2 * y"
  shows "b \<le> exp z"
proof -
  have "a\<^sup>2 \<le> (exp y)\<^sup>2"
    using assms(1,2) by (intro power_mono) simp_all
  also have "\<dots> = exp z"
    using assms(4) by (simp add: exp_double)
  finally show ?thesis using assms(3) by simp
qed

lemma ln_102_lower: "(462 / 100 :: real) < ln 102"
proof -
  have u0: "exp (462 / 409600) \<le> (1001129201913 / 1000000000000::real)"
    using exp_bound [of "462 / 409600"] by (simp add: power2_eq_square)
  have u1: "exp (462 / 204800) \<le> (1002259678923 / 1000000000000::real)"
    by (rule exp_upper_step [OF u0]) (simp_all add: power2_eq_square)
  have u2: "exp (462 / 102400) \<le> (200904892799 / 200000000000::real)"
    by (rule exp_upper_step [OF u1]) (simp_all add: power2_eq_square)
  have u3: "exp (462 / 51200) \<le> (201813879753 / 200000000000::real)"
    by (rule exp_upper_step [OF u2]) (simp_all add: power2_eq_square)
  have u4: "exp (462 / 25600) \<le> (254555262881 / 250000000000::real)"
    by (rule exp_upper_step [OF u3]) (simp_all add: power2_eq_square)
  have u5: "exp (462 / 12800) \<le> (1036774109767 / 1000000000000::real)"
    by (rule exp_upper_step [OF u4]) (simp_all add: power2_eq_square)
  have u6: "exp (462 / 6400) \<le> (268725138671 / 250000000000::real)"
    by (rule exp_upper_step [OF u5]) (simp_all add: power2_eq_square)
  have u7: "exp (462 / 3200) \<le> (57770560123 / 50000000000::real)"
    by (rule exp_upper_step [OF u6]) (simp_all add: power2_eq_square)
  have u8: "exp (462 / 1600) \<le> (1334975046771 / 1000000000000::real)"
    by (rule exp_upper_step [OF u7]) (simp_all add: power2_eq_square)
  have u9: "exp (462 / 800) \<le> (891079187751 / 500000000000::real)"
    by (rule exp_upper_step [OF u8]) (simp_all add: power2_eq_square)
  have u10: "exp (462 / 400) \<le> (794022118843 / 250000000000::real)"
    by (rule exp_upper_step [OF u9]) (simp_all add: power2_eq_square)
  have u11: "exp (462 / 200) \<le> (10087538003391 / 1000000000000::real)"
    by (rule exp_upper_step [OF u10]) (simp_all add: power2_eq_square)
  have u12: "exp (462 / 100) \<le> (50879211484929 / 500000000000::real)"
    by (rule exp_upper_step [OF u11]) (simp_all add: power2_eq_square)
  from u12 have "exp (462 / 100) < (102::real)" by simp
  then have "exp (462 / 100) < exp (ln (102::real))" by simp
  then show ?thesis by (simp only: exp_less_cancel_iff)
qed

lemma ln_102_upper: "ln 102 < (463 / 100 :: real)"
proof -
  have l0: "(1018249488067 / 1000000000000::real) \<le> exp (463 / 25600)"
    using exp_lower_Taylor_quadratic [of "463 / 25600"] by (simp add: power2_eq_square)
  have l1: "(259208004987 / 250000000000::real) \<le> exp (463 / 12800)"
    by (rule exp_lower_step [OF l0]) (simp_all add: power2_eq_square)
  have l2: "(1075020637589 / 1000000000000::real) \<le> exp (463 / 6400)"
    by (rule exp_lower_step [OF l1]) (simp_all add: power2_eq_square)
  have l3: "(577834685621 / 500000000000::real) \<le> exp (463 / 3200)"
    by (rule exp_lower_step [OF l2]) (simp_all add: power2_eq_square)
  have l4: "(667785847813 / 500000000000::real) \<le> exp (463 / 1600)"
    by (rule exp_lower_step [OF l3]) (simp_all add: power2_eq_square)
  have l5: "(1783751754157 / 1000000000000::real) \<le> exp (463 / 800)"
    by (rule exp_lower_step [OF l4]) (simp_all add: power2_eq_square)
  have l6: "(1590885160229 / 500000000000::real) \<le> exp (463 / 400)"
    by (rule exp_lower_step [OF l5]) (simp_all add: power2_eq_square)
  have l7: "(10123662372147 / 1000000000000::real) \<le> exp (463 / 200)"
    by (rule exp_lower_step [OF l6]) (simp_all add: power2_eq_square)
  have l8: "(4099541593009 / 40000000000::real) \<le> exp (463 / 100)"
    by (rule exp_lower_step [OF l7]) (simp_all add: power2_eq_square)
  from l8 have "(102::real) < exp (463 / 100)" by simp
  then have "exp (ln (102::real)) < exp (463 / 100)" by simp
  then show ?thesis by (simp only: exp_less_cancel_iff)
qed

lemma ln_1000002_lower: "(1381 / 100 :: real) < ln 1000002"
proof -
  have u0: "exp (1381 / 3276800) \<le> (1000421625373 / 1000000000000::real)"
    using exp_bound [of "1381 / 3276800"] by (simp add: power2_eq_square)
  have u1: "exp (1381 / 1638400) \<le> (500421714257 / 500000000000::real)"
    by (rule exp_upper_step [OF u0]) (simp_all add: power2_eq_square)
  have u2: "exp (1381 / 819200) \<le> (2504218921 / 2500000000::real)"
    by (rule exp_upper_step [OF u1]) (simp_all add: power2_eq_square)
  have u3: "exp (1381 / 409600) \<le> (62711124043 / 62500000000::real)"
    by (rule exp_upper_step [OF u2]) (simp_all add: power2_eq_square)
  have u4: "exp (1381 / 204800) \<le> (1006767380157 / 1000000000000::real)"
    by (rule exp_upper_step [OF u3]) (simp_all add: power2_eq_square)
  have u5: "exp (1381 / 102400) \<le> (1013580557749 / 1000000000000::real)"
    by (rule exp_upper_step [OF u4]) (simp_all add: power2_eq_square)
  have u6: "exp (1381 / 51200) \<le> (1027345547047 / 1000000000000::real)"
    by (rule exp_upper_step [OF u5]) (simp_all add: power2_eq_square)
  have u7: "exp (1381 / 25600) \<le> (527719436519 / 500000000000::real)"
    by (rule exp_upper_step [OF u6]) (simp_all add: power2_eq_square)
  have u8: "exp (1381 / 12800) \<le> (1740548773 / 1562500000::real)"
    by (rule exp_upper_step [OF u7]) (simp_all add: power2_eq_square)
  have u9: "exp (1381 / 6400) \<le> (1240887308777 / 1000000000000::real)"
    by (rule exp_upper_step [OF u8]) (simp_all add: power2_eq_square)
  have u10: "exp (1381 / 3200) \<le> (384950328271 / 250000000000::real)"
    by (rule exp_upper_step [OF u9]) (simp_all add: power2_eq_square)
  have u11: "exp (1381 / 1600) \<le> (37046688809 / 15625000000::real)"
    by (rule exp_upper_step [OF u10]) (simp_all add: power2_eq_square)
  have u12: "exp (1381 / 800) \<le> (175674515419 / 31250000000::real)"
    by (rule exp_upper_step [OF u11]) (simp_all add: power2_eq_square)
  have u13: "exp (1381 / 400) \<le> (15801106108263 / 500000000000::real)"
    by (rule exp_upper_step [OF u12]) (simp_all add: power2_eq_square)
  have u14: "exp (1381 / 200) \<le> (499349908489173 / 500000000000::real)"
    by (rule exp_upper_step [OF u13]) (simp_all add: power2_eq_square)
  have u15: "exp (1381 / 100) \<le> (498700662216290899 / 500000000000::real)"
    by (rule exp_upper_step [OF u14]) (simp_all add: power2_eq_square)
  from u15 have "exp (1381 / 100) < (1000002::real)" by simp
  then have "exp (1381 / 100) < exp (ln (1000002::real))" by simp
  then show ?thesis by (simp only: exp_less_cancel_iff)
qed

lemma ln_1000002_upper: "ln 1000002 < (1382 / 100 :: real)"
proof -
  have l0: "(1013587166023 / 1000000000000::real) \<le> exp (1382 / 102400)"
    using exp_lower_Taylor_quadratic [of "1382 / 102400"] by (simp add: power2_eq_square)
  have l1: "(513679471563 / 500000000000::real) \<le> exp (1382 / 51200)"
    by (rule exp_lower_step [OF l0]) (simp_all add: power2_eq_square)
  have l2: "(52773319901 / 50000000000::real) \<le> exp (1382 / 25600)"
    by (rule exp_lower_step [OF l1]) (simp_all add: power2_eq_square)
  have l3: "(1114009317349 / 1000000000000::real) \<le> exp (1382 / 12800)"
    by (rule exp_lower_step [OF l2]) (simp_all add: power2_eq_square)
  have l4: "(62050837957 / 50000000000::real) \<le> exp (1382 / 6400)"
    by (rule exp_lower_step [OF l3]) (simp_all add: power2_eq_square)
  have l5: "(770061298233 / 500000000000::real) \<le> exp (1382 / 3200)"
    by (rule exp_lower_step [OF l4]) (simp_all add: power2_eq_square)
  have l6: "(474395522429 / 200000000000::real) \<le> exp (1382 / 1600)"
    by (rule exp_lower_step [OF l5]) (simp_all add: power2_eq_square)
  have l7: "(5626277792517 / 1000000000000::real) \<le> exp (1382 / 800)"
    by (rule exp_lower_step [OF l6]) (simp_all add: power2_eq_square)
  have l8: "(31655001798569 / 1000000000000::real) \<le> exp (1382 / 400)"
    by (rule exp_lower_step [OF l7]) (simp_all add: power2_eq_square)
  have l9: "(501019569433703 / 500000000000::real) \<le> exp (1382 / 200)"
    by (rule exp_lower_step [OF l8]) (simp_all add: power2_eq_square)
  have l10: "(200816487164426513 / 200000000000::real) \<le> exp (1382 / 100)"
    by (rule exp_lower_step [OF l9]) (simp_all add: power2_eq_square)
  from l10 have "(1000002::real) < exp (1382 / 100)" by simp
  then have "exp (ln (1000002::real)) < exp (1382 / 100)" by simp
  then show ?thesis by (simp only: exp_less_cancel_iff)
qed

text \<open>
  The worked example of the specification: a candidate in the newsletters of 100 and
  of 1,000,000 subscribers has the base score \<open>1 / ln 102 + 1 / ln 1000002\<close>, which is
  0.288 to three places.
\<close>

lemma example_base_score:
  "\<bar>computeNichenessWeight (Some 100) + computeNichenessWeight (Some 1000000) - 288 / 1000\<bar>
     < 1 / 1000"
proof -
  let ?a = "ln (102::real)" and ?b = "ln (1000002::real)"
  have w: "computeNichenessWeight (Some 100) = 1 / ?a"
    "computeNichenessWeight (Some 1000000) = 1 / ?b"
    by (simp_all add: computeNichenessWeight_def num_or_def)
  have a1: "1 / ?a < 1 / (462 / 100)"
    using ln_102_lower by (intro divide_strict_left_mono) simp_all
  have a2: "1 / (463 / 100) < 1 / ?a"
    using ln_102_upper ln_102_lower by (intro divide_strict_left_mono) simp_all
  have b1: "1 / ?b < 1 / (1381 / 100)"
    using ln_1000002_lower by (intro divide_strict_left_mono) simp_all
  have b2: "1 / (1382 / 100) < 1 / ?b"
    using ln_1000002_upper ln_1000002_lower by (intro divide_strict_left_mono) simp_all
  from a1 a2 b1 b2 show ?thesis unfolding w by simp
qed

text \<open>
  C4 at a known count of 0. \<^verbatim>\<open>subscriberCount || 1000\<close> takes the count 0 for a
  missing one, so the scorer weighs a newsletter known to have no subscribers with
  \<open>1 / ln 1002\<close> and not with \<open>1 / ln (0 + 2)\<close>.
\<close>

theorem weight_of_zero_count:
  "computeNichenessWeight (Some 0) = 1 / ln 1002
   \<and> computeNichenessWeight (Some 0) \<noteq> 1 / ln (real 0 + 2)"
  by (simp add: computeNichenessWeight_def num_or_def)

text \<open>
  C5 at the counts 0 and 500. The newsletter with fewer subscribers gets the smaller
  weight.
\<close>

theorem weight_not_monotone_at_zero:
  "(0::nat) < 500 \<and> computeNichenessWeight (Some 0) < computeNichenessWeight (Some 500)"
  by (simp add: computeNichenessWeight_def num_or_def frac_less2)

section \<open>C3: the extraction pipeline\<close>

lemma api_block_eq:
  "api_block d =
     (if extractUsersFromApiResponse d \<noteq> [] then Some (extractUsersFromApiResponse d) else None)"
  by (auto simp: api_block_def extractUsersFromApiResponse_def Let_def split: option.splits)

lemma next_data_block_eq:
  "next_data_block (env_nextData env) = (if tier2 env \<noteq> [] then Some (tier2 env) else None)"
  by (auto simp: next_data_block_def tier2_def Let_def split: option.splits next_data.splits)

lemma getUsersForPage_eq:
  "getUsersForPage env a pt =
     (if tier1 env a pt \<noteq> [] then tier1 env a pt
      else if tier2 env \<noteq> [] then tier2 env else tier3 env)"
  by (simp add: getUsersForPage_def api_block_eq next_data_block_eq tier1_def tier3_def)

lemma page_to_process_Some:
  "page_to_process env st = Some page \<Longrightarrow>
   currentPageIndex st < length (pagesToVisit st) \<and> page = pagesToVisit st ! currentPageIndex st"
  by (auto simp: page_to_process_def Let_def split: if_splits)

text \<open>
  C3. \<^verbatim>\<open>getUsersForPage\<close> returns the records of the first tier that has any, in
  the order API, \<^verbatim>\<open>__NEXT_DATA__\<close>, visible links, and of that tier alone; with no
  records in tier 1 and some in tier 2 the result is tier 2's. When no tier has any,
  the result is the empty list, and an uninterrupted \<^verbatim>\<open>processScan\<close> on the page
  of the current visit still counts the visit as done: no error is posted, no
  exception leaves the function, and either the stored cursor is one further with the
  appearances unchanged, or this was the last visit and the scan completes.
\<close>

theorem extraction_first_non_empty_tier:
  "getUsersForPage env a pt =
     (if tier1 env a pt \<noteq> [] then tier1 env a pt
      else if tier2 env \<noteq> [] then tier2 env else tier3 env)
   \<and> (page_to_process env st = Some page
        \<and> tier1 env (pv_authorId page) (pv_pageType page) = []
        \<and> tier2 env = [] \<and> tier3 env = []
      \<longrightarrow> getUsersForPage env (pv_authorId page) (pv_pageType page) = []
          \<and> extracted (processScan quiet env (Some st)) = Some page
          \<and> errors (posted (processScan quiet env (Some st))) = []
          \<and> uncaught (processScan quiet env (Some st)) = None
          \<and> (case stored (processScan quiet env (Some st)) of
                Some st' \<Rightarrow> currentPageIndex st' = currentPageIndex st + 1
                            \<and> personAppearances st' = personAppearances st
              | None \<Rightarrow> currentPageIndex st + 1 = length (pagesToVisit st)
                         \<and> (\<exists>ms. COMPLETE ms \<in> set (posted (processScan quiet env (Some st))))))"
proof (intro conjI impI)
  show "getUsersForPage env a pt =
     (if tier1 env a pt \<noteq> [] then tier1 env a pt
      else if tier2 env \<noteq> [] then tier2 env else tier3 env)"
    by (rule getUsersForPage_eq)
next
  assume h: "page_to_process env st = Some page
        \<and> tier1 env (pv_authorId page) (pv_pageType page) = []
        \<and> tier2 env = [] \<and> tier3 env = []"
  then have g: "getUsersForPage env (pv_authorId page) (pv_pageType page) = []"
    by (simp add: getUsersForPage_eq)
  then show "getUsersForPage env (pv_authorId page) (pv_pageType page) = []" .
  from h page_to_process_Some [of env st page]
  have lt: "currentPageIndex st < length (pagesToVisit st)" by simp
  have pp: "process_page env page st
      = Inr (st\<lparr>personAppearances := personAppearances st,
                   currentPageIndex := currentPageIndex st + 1\<rparr>)"
    using g by (simp add: process_page_def)
  show "extracted (processScan quiet env (Some st)) = Some page"
    using h pp by (simp add: processScan_def Let_def quiet_def move_on_fields)
  show "errors (posted (processScan quiet env (Some st))) = []"
    using h pp
    by (simp add: processScan_def move_on_def Let_def quiet_def finishScan_def
        scanning_message_def)
  show "uncaught (processScan quiet env (Some st)) = None"
    using h pp by (simp add: processScan_def Let_def quiet_def move_on_fields)
  show "case stored (processScan quiet env (Some st)) of
          Some st' \<Rightarrow> currentPageIndex st' = currentPageIndex st + 1
                      \<and> personAppearances st' = personAppearances st
        | None \<Rightarrow> currentPageIndex st + 1 = length (pagesToVisit st)
                   \<and> (\<exists>ms. COMPLETE ms \<in> set (posted (processScan quiet env (Some st))))"
    using h lt pp
    by (auto simp add: processScan_def move_on_def Let_def quiet_def finishScan_def
        scanning_message_def)
qed

lemma fallback_page_tier1: "tier1 fallback_page 11 subscribers = []"
  by (simp add: tier1_def fallback_page_def extractUsersFromApiResponse_def users_of_lists_def)

lemma fallback_page_tier2: "tier2 fallback_page = [person ''erin'']"
  by (simp add: tier2_def fallback_page_def next_lists_def users_of_lists_def
      users_of_list_def users_of_group_def pushed_user_def raw_person_def person_def or_str_def)

lemma fallback_page_tier3:
  "tier3 fallback_page =
     [\<lparr>u_id = None, u_handle = Some ''frank'', u_name = Some ''Frank'', u_bio = None,
       u_photo_url = None, u_primaryPublication = None\<rparr>]"
  by (simp add: tier3_def fallback_page_def scraped_user_def handle_char_def trim_def
      white_space_def or_str_def)

lemma empty_page_is_first_visit:
  "page_to_process empty_page fresh_state = Some (visit_for (hd two_newsletters) subscribers)"
  by (simp add: page_to_process_def empty_page_def fresh_state_def two_newsletters_def
      visit_for_def str_includes_def sublist_code)

theorem extraction_first_non_empty_tier_witness:
  "page_to_process empty_page fresh_state = Some (visit_for (hd two_newsletters) subscribers)
   \<and> tier1 empty_page 11 subscribers = [] \<and> tier2 empty_page = [] \<and> tier3 empty_page = []
   \<and> getUsersForPage empty_page 11 subscribers = []
   \<and> map_option currentPageIndex (stored (processScan quiet empty_page (Some fresh_state))) = Some 1
   \<and> errors (posted (processScan quiet empty_page (Some fresh_state))) = []
   \<and> uncaught (processScan quiet empty_page (Some fresh_state)) = None
   \<and> tier1 fallback_page 11 subscribers = []
   \<and> tier2 fallback_page = [person ''erin'']
   \<and> tier3 fallback_page \<noteq> []
   \<and> getUsersForPage fallback_page 11 subscribers = [person ''erin'']"
proof -
  let ?page = "visit_for (hd two_newsletters) subscribers"
  have a: "pv_authorId ?page = 11" "pv_pageType ?page = subscribers"
    by (simp_all add: visit_for_def two_newsletters_def)
  have t: "tier1 empty_page 11 subscribers = []" "tier2 empty_page = []" "tier3 empty_page = []"
    by (simp_all add: tier1_def tier2_def tier3_def empty_page_def
        extractUsersFromApiResponse_def)
  have c: "currentPageIndex fresh_state = 0"
    by (simp add: fresh_state_def)
  have n: "length (pagesToVisit fresh_state) = 4"
    by (simp add: fresh_state_def two_newsletters_def)
  from extraction_first_non_empty_tier
         [of empty_page "pv_authorId ?page" "pv_pageType ?page" fresh_state ?page]
    empty_page_is_first_visit t a c n
  have "getUsersForPage empty_page 11 subscribers = []
   \<and> map_option currentPageIndex (stored (processScan quiet empty_page (Some fresh_state))) = Some 1
   \<and> errors (posted (processScan quiet empty_page (Some fresh_state))) = []
   \<and> uncaught (processScan quiet empty_page (Some fresh_state)) = None"
    by (auto split: option.splits)
  moreover
  from extraction_first_non_empty_tier [of fallback_page 11 subscribers fresh_state ?page]
    fallback_page_tier1 fallback_page_tier2
  have "getUsersForPage fallback_page 11 subscribers = [person ''erin'']" by simp
  ultimately show ?thesis
    using empty_page_is_first_visit t fallback_page_tier1 fallback_page_tier2 fallback_page_tier3
    by simp
qed

section \<open>C7: staleness\<close>

lemma show_cached_fields:
  "scanState (storage_after (show_cached ls)) = scanState ls"
  "results (storage_after (show_cached ls)) = results ls"
  "progress_from (show_cached ls) = None"
  "shown (show_cached ls) = form \<or> shown (show_cached ls) = results_section"
  by (auto simp: show_cached_def split: option.splits)

text \<open>
  C7, as the source has it. The one-hour rule lives in the popup and concerns the
  progress record of \<^verbatim>\<open>chrome.storage.local\<close>: when the popup opens on a
  Substack tab and finds an in-progress record whose (non-zero) timestamp is more than
  3,600,000 ms old, it removes the record, restores no progress display from it and
  shows the cached results or the form. Nothing is reported as failed. The injected
  script is not part of this: what a page load stores and posts is
  \<^verbatim>\<open>page_load\<close> of the session state alone, whatever the time and the record.
\<close>

theorem stale_record_discarded_by_popup:
  "(isSubstack url \<and> scanState ls = Some r \<and> pr_inProgress r
      \<and> pr_timestamp r = Some ts \<and> ts \<noteq> 0 \<and> now - ts > 60 * 60 * 1000
    \<longrightarrow> scanState (storage_after (popup_init now url ls)) = None
        \<and> results (storage_after (popup_init now url ls)) = results ls
        \<and> progress_from (popup_init now url ls) = None
        \<and> (shown (popup_init now url ls) = form \<or> shown (popup_init now url ls) = results_section))
   \<and> session (fst (tab_load now i env t)) = stored (page_load i env (session t))
   \<and> snd (tab_load now i env t) = posted (page_load i env (session t))"
proof (intro conjI impI)
  assume h: "isSubstack url \<and> scanState ls = Some r \<and> pr_inProgress r
      \<and> pr_timestamp r = Some ts \<and> ts \<noteq> 0 \<and> now - ts > 60 * 60 * 1000"
  then have p: "popup_init now url ls = show_cached (ls\<lparr>scanState := None\<rparr>)"
    by (simp add: popup_init_def is_stale_def ONE_HOUR_def)
  show "scanState (storage_after (popup_init now url ls)) = None"
    unfolding p by (simp add: show_cached_fields)
  show "results (storage_after (popup_init now url ls)) = results ls"
    unfolding p by (simp add: show_cached_fields)
  show "progress_from (popup_init now url ls) = None"
    unfolding p by (simp add: show_cached_fields)
  show "shown (popup_init now url ls) = form \<or> shown (popup_init now url ls) = results_section"
    unfolding p by (rule show_cached_fields)
next
  show "session (fst (tab_load now i env t)) = stored (page_load i env (session t))"
    by (simp add: tab_load_def Let_def)
  show "snd (tab_load now i env t) = posted (page_load i env (session t))"
    by (simp add: tab_load_def Let_def)
qed

lemma later_val: "later = 3661000" by (simp add: later_def)

theorem stale_record_discarded_by_popup_witness:
  "isSubstack (Some ''https://substack.com/home'')
   \<and> scanState (local_store old_tab) = Some old_record
   \<and> pr_inProgress old_record
   \<and> pr_timestamp old_record = Some 1000 \<and> (1000::int) \<noteq> 0 \<and> later - 1000 > 60 * 60 * 1000
   \<and> scanState (storage_after (popup_init later (Some ''https://substack.com/home'') (local_store old_tab))) = None
   \<and> progress_from (popup_init later (Some ''https://substack.com/home'') (local_store old_tab)) = None
   \<and> shown (popup_init later (Some ''https://substack.com/home'') (local_store old_tab)) = form"
proof -
  have a: "isSubstack (Some ''https://substack.com/home'')"
    by (simp add: isSubstack_def str_includes_def sublist_code)
  have b: "scanState (local_store old_tab) = Some old_record" by (simp add: old_tab_def)
  have c: "pr_inProgress old_record" "pr_timestamp old_record = Some 1000"
    by (simp_all add: old_record_def)
  have d: "later - 1000 > 60 * 60 * 1000" by (simp add: later_def)
  have e: "results (local_store old_tab) = None" by (simp add: old_tab_def)
  from stale_record_discarded_by_popup [of "Some ''https://substack.com/home''" "local_store old_tab" old_record 1000 later]
    a b c d
  have "scanState (storage_after (popup_init later (Some ''https://substack.com/home'') (local_store old_tab))) = None
   \<and> progress_from (popup_init later (Some ''https://substack.com/home'') (local_store old_tab)) = None"
    by simp
  moreover have "shown (popup_init later (Some ''https://substack.com/home'') (local_store old_tab)) = form"
    using a b c d e by (simp add: popup_init_def is_stale_def ONE_HOUR_def show_cached_def)
  ultimately show ?thesis using a b c d by simp
qed

text \<open>
  C7, as the specification words it, fails. The progress record of \<open>old_tab\<close> was
  last written 61 minutes before \<open>later\<close>. A page load at that moment resumes the
  scan from the stored cursor: two scanning progress messages are posted (visit 1 of
  4, then visit 2 of 4), no error is posted, the state stays in the store with the
  cursor advanced, and the record is rewritten with the new time.
\<close>

theorem stale_scan_resumed_counterexample:
  "scanState (local_store old_tab) = Some old_record
   \<and> is_stale later old_record
   \<and> map sp_current (scanning (snd (tab_load later quiet empty_page old_tab))) = [1, 2]
   \<and> errors (snd (tab_load later quiet empty_page old_tab)) = []
   \<and> map_option currentPageIndex (session (fst (tab_load later quiet empty_page old_tab))) = Some 1
   \<and> map_option pr_timestamp (scanState (local_store (fst (tab_load later quiet empty_page old_tab)))) = Some (Some later)"
  by (simp add: tab_load_def page_load_def processScan_def move_on_def quiet_def
      page_to_process_def process_page_def Let_def
      old_tab_def old_record_def is_stale_def ONE_HOUR_def later_def
      fresh_state_def two_newsletters_def visit_for_def empty_page_def
      str_includes_def sublist_code getUsersForPage_def api_block_def next_data_block_def
      scanning_message_def)

section \<open>C2: the scan plan\<close>

lemma visit_for_newsletter_of: "visit_for (newsletter_of p) pt = visit_of p pt"
  by (simp add: visit_for_def newsletter_of_def visit_of_def)

lemma plan_pages_concat:
  "plan_pages nls =
     concat (map (\<lambda>nl. [visit_for nl subscribers, visit_for nl followers])
               (map newsletter_of nls))"
  by (induction nls) (simp_all add: visit_for_newsletter_of)

lemma length_plan_pages: "length (plan_pages nls) = 2 * length nls"
  by (induction nls) simp_all

lemma counts_of_plan_pages:
  "pv_subscriberCount ` set (plan_pages nls) = p_subscriber_count ` set nls"
  by (induction nls) (auto simp: visit_of_def)

lemma sorted_plan_pages:
  "sorted (map (\<lambda>p. count_key (p_subscriber_count p)) nls) \<Longrightarrow>
   sorted (map (\<lambda>v. count_key (pv_subscriberCount v)) (plan_pages nls))"
proof (induction nls)
  case Nil
  then show ?case by simp
next
  case (Cons p nls)
  have "\<forall>v \<in> set (plan_pages nls).
          count_key (p_subscriber_count p) \<le> count_key (pv_subscriberCount v)"
  proof
    fix v
    assume "v \<in> set (plan_pages nls)"
    then have "pv_subscriberCount v \<in> p_subscriber_count ` set nls"
      using counts_of_plan_pages by blast
    then obtain q where "q \<in> set nls" "pv_subscriberCount v = p_subscriber_count q"
      by auto
    with Cons.prems
    show "count_key (p_subscriber_count p) \<le> count_key (pv_subscriberCount v)"
      by auto
  qed
  with Cons show ?case by (auto simp: visit_of_def)
qed

lemma length_plan_newsletters:
  "length (plan_newsletters subs) = length (filter (\<lambda>s. scannable s \<noteq> None) subs)"
  by (simp add: plan_newsletters_def map_filter_def)

lemma truthy_or_num: "truthy_num (or_num a b) \<longleftrightarrow> truthy_num a \<or> truthy_num b"
  by (simp add: or_num_def)

lemma map_filter_scannable: "List.map_filter scannable subs = publications_kept subs"
  unfolding publications_kept_def
  by (induction subs)
    (auto simp: map_filter_simps scannable_def truthy_or_num split: option.splits)

lemma plan_newsletters_stable:
  "filter (\<lambda>p. count_key (p_subscriber_count p) = c) (plan_newsletters subs)
     = filter (\<lambda>p. count_key (p_subscriber_count p) = c) (publications_kept subs)"
  by (simp add: plan_newsletters_def map_filter_scannable sort_key_stable)

lemma newsletter_of_kept:
  assumes "p \<in> set (publications_kept subs)"
  shows "nl_id (newsletter_of p) = p_id p \<and> nl_name (newsletter_of p) = p_name p
     \<and> Some (nl_subdomain (newsletter_of p)) = p_subdomain p
     \<and> Some (nl_authorId (newsletter_of p)) = or_num (p_author_id p) (p_primary_user_id p)
     \<and> nl_subscriberCount (newsletter_of p) = p_subscriber_count p"
proof -
  from assms have s: "truthy_str (p_subdomain p)"
    and a: "truthy_num (or_num (p_author_id p) (p_primary_user_id p))"
    by (simp_all add: publications_kept_def truthy_or_num)
  from s obtain sd where "p_subdomain p = Some sd" by (cases "p_subdomain p") simp_all
  moreover from a obtain au where "or_num (p_author_id p) (p_primary_user_id p) = Some au"
    by (cases "or_num (p_author_id p) (p_primary_user_id p)") simp_all
  ultimately show ?thesis by (simp add: newsletter_of_def author_of_def)
qed

lemma stored_startScan:
  "up_subscriptions prof = Some subs \<Longrightarrow> subs \<noteq> [] \<Longrightarrow>
   stored (startScan uname (Ok prof))
     = Some \<lparr>username = uname, profileId = up_id prof,
             newsletters = map newsletter_of (plan_newsletters subs),
             pagesToVisit = plan_pages (plan_newsletters subs), currentPageIndex = 0,
             personAppearances = []\<rparr>"
  by (simp add: startScan_def Let_def failed_def split: list.splits)

text \<open>
  C2, as the source has it. For a profile with a non-empty subscription list
  \<^verbatim>\<open>startScan\<close> stores a plan of exactly two visits for every subscription whose
  publication has a non-empty subdomain and a non-zero \<^verbatim>\<open>author_id\<close> or
  \<^verbatim>\<open>primary_user_id\<close>; the other subscriptions are left out. The newsletters of the
  state are those publications, field by field, in ascending order of subscriber
  count, a missing count counting as 0 and equal counts keeping the order of the
  subscription list. The plan is, for each newsletter in turn, its
  \<^verbatim>\<open>subscribers\<close> visit and right after it its \<^verbatim>\<open>followers\<close> visit, so it is
  in ascending order of subscriber count too. It depends on the subscription list
  alone: another username or profile with the same subscriptions gets the same plan.
\<close>

theorem scan_plan:
  assumes "up_subscriptions prof = Some subs" and "subs \<noteq> []"
  shows "\<exists>st. stored (startScan uname (Ok prof)) = Some st
     \<and> length (pagesToVisit st) = 2 * length (publications_kept subs)
     \<and> (\<forall>c. filter (\<lambda>nl. count_key (nl_subscriberCount nl) = c) (newsletters st)
              = map newsletter_of
                  (filter (\<lambda>p. count_key (p_subscriber_count p) = c) (publications_kept subs)))
     \<and> (\<forall>p \<in> set (publications_kept subs).
           nl_id (newsletter_of p) = p_id p \<and> nl_name (newsletter_of p) = p_name p
           \<and> Some (nl_subdomain (newsletter_of p)) = p_subdomain p
           \<and> Some (nl_authorId (newsletter_of p)) = or_num (p_author_id p) (p_primary_user_id p)
           \<and> nl_subscriberCount (newsletter_of p) = p_subscriber_count p)
     \<and> sorted (map (\<lambda>nl. count_key (nl_subscriberCount nl)) (newsletters st))
     \<and> pagesToVisit st
         = concat (map (\<lambda>nl. [visit_for nl subscribers, visit_for nl followers]) (newsletters st))
     \<and> sorted (map (\<lambda>v. count_key (pv_subscriberCount v)) (pagesToVisit st))
     \<and> (\<forall>uname' prof'. up_subscriptions prof' = Some subs
           \<longrightarrow> map_option pagesToVisit (stored (startScan uname' (Ok prof')))
                 = Some (pagesToVisit st))"
proof -
  let ?nls = "plan_newsletters subs"
  let ?st = "\<lparr>username = uname, profileId = up_id prof, newsletters = map newsletter_of ?nls,
       pagesToVisit = plan_pages ?nls, currentPageIndex = 0, personAppearances = []\<rparr>"
  have st: "stored (startScan uname (Ok prof)) = Some ?st"
    using assms by (rule stored_startScan)
  have s1: "sorted (map (\<lambda>p. count_key (p_subscriber_count p)) ?nls)"
    by (simp add: plan_newsletters_def)
  have s2: "sorted (map (\<lambda>nl. count_key (nl_subscriberCount nl)) (newsletters ?st))"
    using s1 by (simp add: comp_def newsletter_of_def)
  have s3: "sorted (map (\<lambda>v. count_key (pv_subscriberCount v)) (pagesToVisit ?st))"
    using sorted_plan_pages [OF s1] by simp
  have l: "length (pagesToVisit ?st) = 2 * length (publications_kept subs)"
    by (simp add: length_plan_pages plan_newsletters_def map_filter_scannable)
  have f: "\<forall>c. filter (\<lambda>nl. count_key (nl_subscriberCount nl) = c) (newsletters ?st)
              = map newsletter_of
                  (filter (\<lambda>p. count_key (p_subscriber_count p) = c) (publications_kept subs))"
  proof
    fix c
    have "filter (\<lambda>nl. count_key (nl_subscriberCount nl) = c) (map newsletter_of ?nls)
        = map newsletter_of (filter (\<lambda>p. count_key (p_subscriber_count p) = c) ?nls)"
      by (simp add: filter_map comp_def newsletter_of_def)
    then show "filter (\<lambda>nl. count_key (nl_subscriberCount nl) = c) (newsletters ?st)
              = map newsletter_of
                  (filter (\<lambda>p. count_key (p_subscriber_count p) = c) (publications_kept subs))"
      by (simp add: plan_newsletters_stable)
  qed
  have n: "\<forall>p \<in> set (publications_kept subs).
           nl_id (newsletter_of p) = p_id p \<and> nl_name (newsletter_of p) = p_name p
           \<and> Some (nl_subdomain (newsletter_of p)) = p_subdomain p
           \<and> Some (nl_authorId (newsletter_of p)) = or_num (p_author_id p) (p_primary_user_id p)
           \<and> nl_subscriberCount (newsletter_of p) = p_subscriber_count p"
    using newsletter_of_kept by blast
  have c: "pagesToVisit ?st
      = concat (map (\<lambda>nl. [visit_for nl subscribers, visit_for nl followers]) (newsletters ?st))"
    using plan_pages_concat [of ?nls] by simp
  have d: "\<forall>uname' prof'. up_subscriptions prof' = Some subs
           \<longrightarrow> map_option pagesToVisit (stored (startScan uname' (Ok prof')))
                 = Some (pagesToVisit ?st)"
    using assms(2) by (simp add: stored_startScan)
  from st l f n s2 c s3 d show ?thesis by blast
qed

theorem scan_plan_witness:
  "up_subscriptions seed_profile = Some three_subscriptions \<and> three_subscriptions \<noteq> []
   \<and> length (publications_kept three_subscriptions) = 2
   \<and> map_option (\<lambda>st. map (\<lambda>v. (pv_newsletterId v, pv_pageType v, pv_authorId v)) (pagesToVisit st))
       (stored (startScan ''me'' (Ok seed_profile)))
     = Some [(3, subscribers, 13), (3, followers, 13), (1, subscribers, 11), (1, followers, 11)]
   \<and> (\<exists>st. stored (startScan ''me'' (Ok seed_profile)) = Some st
        \<and> length (pagesToVisit st) = 2 * length (publications_kept three_subscriptions)
        \<and> sorted (map (\<lambda>v. count_key (pv_subscriberCount v)) (pagesToVisit st))
        \<and> pagesToVisit st
            = concat (map (\<lambda>nl. [visit_for nl subscribers, visit_for nl followers])
                        (newsletters st)))"
proof -
  have a: "up_subscriptions seed_profile = Some three_subscriptions"
    by (simp add: seed_profile_def)
  have b: "three_subscriptions \<noteq> []"
    by (simp add: three_subscriptions_def)
  have k: "length (publications_kept three_subscriptions) = 2"
    by (simp add: publications_kept_def three_subscriptions_def map_filter_simps)
  have e: "map_option (\<lambda>st. map (\<lambda>v. (pv_newsletterId v, pv_pageType v, pv_authorId v)) (pagesToVisit st))
       (stored (startScan ''me'' (Ok seed_profile)))
     = Some [(3, subscribers, 13), (3, followers, 13), (1, subscribers, 11), (1, followers, 11)]"
    by (simp add: startScan_def seed_profile_def three_subscriptions_def plan_newsletters_def
        map_filter_simps scannable_def or_num_def count_key_def num_or_def visit_of_def
        author_of_def Let_def)
  from scan_plan [OF a b, of "''me''"]
  have "\<exists>st. stored (startScan ''me'' (Ok seed_profile)) = Some st
        \<and> length (pagesToVisit st) = 2 * length (publications_kept three_subscriptions)
        \<and> sorted (map (\<lambda>v. count_key (pv_subscriberCount v)) (pagesToVisit st))
        \<and> pagesToVisit st
            = concat (map (\<lambda>nl. [visit_for nl subscribers, visit_for nl followers])
                        (newsletters st))"
    by blast
  with a b k e show ?thesis by blast
qed

text \<open>
  C2, as the specification words it, fails when the plan is measured against the
  subscription list: the profile of the example has three subscriptions, one of them
  to a publication without a subdomain, and the plan has four visits, not six.
\<close>

theorem scan_plan_counterexample:
  "up_subscriptions seed_profile = Some three_subscriptions
   \<and> length three_subscriptions = 3
   \<and> map_option (\<lambda>st. length (pagesToVisit st)) (stored (startScan ''me'' (Ok seed_profile)))
       = Some 4"
  by (simp add: startScan_def seed_profile_def three_subscriptions_def plan_newsletters_def
      map_filter_simps scannable_def or_num_def count_key_def num_or_def Let_def)

section \<open>C1: resumption\<close>

lemma page_load_None: "page_load i env None = (idle None)\<lparr>posted := [READY]\<rparr>"
  by (simp add: page_load_def)

lemma resume_None: "resume events None = ([], None)"
proof (induction events)
  case Nil
  then show ?case by simp
next
  case (Cons ev events)
  then show ?case by (cases ev) (simp add: page_load_None idle_def)
qed

lemma page_to_process_at:
  "page_to_process env st = Some page \<Longrightarrow>
   drop (currentPageIndex st) (pagesToVisit st)
     = page # drop (Suc (currentPageIndex st)) (pagesToVisit st)"
  by (auto simp: page_to_process_def Let_def Cons_nth_drop_Suc split: if_splits)

lemma replay_step:
  "process_page env page st = Inr st1 \<Longrightarrow>
   replay ((env, page) # steps) (personAppearances st) = replay steps (personAppearances st1)"
  by (auto simp: process_page_Inr)

lemma process_page_state:
  "process_page env page st = Inr st1 \<Longrightarrow>
   st1 = st\<lparr>personAppearances := personAppearances st1,
             currentPageIndex := Suc (currentPageIndex st)\<rparr>"
  by (auto simp: process_page_Inr)

lemma resume_safe:
  "map snd (fst (resume events (Some st)))
     = take (length (fst (resume events (Some st)))) (drop (currentPageIndex st) (pagesToVisit st))
   \<and> (\<exists>A. replay (fst (resume events (Some st))) (personAppearances st) = Inr A
        \<and> (case snd (resume events (Some st)) of
              None \<Rightarrow> True
            | Some s \<Rightarrow>
                s = st\<lparr>personAppearances := A,
                       currentPageIndex :=
                         currentPageIndex st + length (fst (resume events (Some st)))\<rparr>))"
proof (induction events arbitrary: st)
  case Nil
  then show ?case by simp
next
  case (Cons ev events)
  obtain i env where ev: "ev = Load i env" by (cases ev)
  let ?out = "page_load i env (Some st)"
  have r: "resume (ev # events) (Some st)
      = (map (Pair env) (visit_list (extracted ?out)) @ fst (resume events (stored ?out)),
         snd (resume events (stored ?out)))"
    using ev by (simp add: Let_def split: prod.splits)
  from page_load_cases [of i env st] show ?case
  proof (elim disjE conjE exE)
    assume "extracted ?out = None" "stored ?out = None"
    with r show ?thesis by (simp add: resume_None)
  next
    assume "extracted ?out = None" "stored ?out = Some st"
    with r have eq: "resume (ev # events) (Some st) = resume events (Some st)" by simp
    show ?thesis unfolding eq by (rule Cons.IH)
  next
    fix page st1
    assume p: "page_to_process env st = Some page" "process_page env page st = Inr st1"
      and e: "extracted ?out = Some page" and s: "stored ?out = None"
    from r e s have "resume (ev # events) (Some st) = ([(env, page)], None)"
      by (simp add: resume_None)
    with page_to_process_at [OF p(1)] replay_step [OF p(2), of "[]"]
    show ?thesis by simp
  next
    fix page st1
    assume p: "page_to_process env st = Some page" "process_page env page st = Inr st1"
      and e: "extracted ?out = Some page" and s: "stored ?out = Some st1"
    let ?r = "resume events (Some st1)"
    from r e s have f: "fst (resume (ev # events) (Some st)) = (env, page) # fst ?r"
      and sn: "snd (resume (ev # events) (Some st)) = snd ?r"
      by simp_all
    from process_page_state [OF p(2)]
    have c: "currentPageIndex st1 = Suc (currentPageIndex st)"
      and pg: "pagesToVisit st1 = pagesToVisit st"
      by (metis scan_state.select_convs(5) scan_state.surjective scan_state.update_convs(5,6),
          metis scan_state.select_convs(4) scan_state.surjective scan_state.update_convs(5,6))
    from Cons.IH [of st1] obtain A where
      ih1: "map snd (fst ?r) = take (length (fst ?r)) (drop (currentPageIndex st1) (pagesToVisit st1))"
      and ih2: "replay (fst ?r) (personAppearances st1) = Inr A"
      and ih3: "case snd ?r of None \<Rightarrow> True
          | Some s \<Rightarrow> s = st1\<lparr>personAppearances := A,
                 currentPageIndex := currentPageIndex st1 + length (fst ?r)\<rparr>"
      by blast
    have a: "map snd (fst (resume (ev # events) (Some st)))
        = take (length (fst (resume (ev # events) (Some st))))
            (drop (currentPageIndex st) (pagesToVisit st))"
      unfolding f using ih1 c pg page_to_process_at [OF p(1)] by simp
    have b: "replay (fst (resume (ev # events) (Some st))) (personAppearances st) = Inr A"
      unfolding f using replay_step [OF p(2)] ih2 by simp
    have d: "case snd (resume (ev # events) (Some st)) of None \<Rightarrow> True
          | Some s \<Rightarrow> s = st\<lparr>personAppearances := A,
                 currentPageIndex :=
                   currentPageIndex st + length (fst (resume (ev # events) (Some st)))\<rparr>"
    proof (cases "snd ?r")
      case None
      then show ?thesis by (simp add: sn)
    next
      case (Some s)
      with ih3 have "s = st1\<lparr>personAppearances := A,
                 currentPageIndex := currentPageIndex st1 + length (fst ?r)\<rparr>"
        by simp
      also have "\<dots> = st\<lparr>personAppearances := A,
                 currentPageIndex := currentPageIndex st + length ((env, page) # fst ?r)\<rparr>"
        by (subst process_page_state [OF p(2)]) (simp add: c)
      finally show ?thesis using Some by (simp add: sn f)
    qed
    from a b d show ?thesis by blast
  qed
qed

lemma quiet_fields [simp]:
  "cancel_in_timer quiet = False" "cancel_in_fetch quiet = False"
  "cancel_in_delay quiet = False" "unloaded quiet = None"
  by (simp_all add: quiet_def)

lemma getUsersForPage_href:
  "getUsersForPage (env\<lparr>env_href := url\<rparr>) a pt = getUsersForPage env a pt"
  by (simp add: getUsersForPage_def split: option.splits)

lemma process_page_href:
  "process_page (env\<lparr>env_href := url\<rparr>) page st = process_page env page st"
  by (simp add: process_page_def getUsersForPage_href)

lemma includes_page_url: "str_includes (page_url p) (''@'' @ pv_subdomain p)"
proof -
  have "page_url p
      = ''https://substack.com/'' @ (''@'' @ pv_subdomain p) @ (''/'' @ page_type_str (pv_pageType p))"
    by (simp add: page_url_def)
  then show ?thesis unfolding str_includes_def by (metis sublist_appendI)
qed

lemma track_user_clean: "\<not> reserved_handle u \<Longrightarrow> \<exists>a'. track_user n a u = Inr a'"
  by (auto simp: reserved_handle_def track_user_def add_newsletter_def ensure_entry_def
      property_of_def split: option.splits)

lemma trackAppearances_clean:
  "\<forall>u \<in> set us. \<not> reserved_handle u \<Longrightarrow> \<exists>a'. trackAppearances n us a = Inr a'"
proof (induction us arbitrary: a)
  case Nil
  then show ?case by simp
next
  case (Cons u us)
  from Cons.prems track_user_clean [of u n a] obtain a1 where "track_user n a u = Inr a1"
    by auto
  with Cons.IH [of a1] Cons.prems show ?case by simp
qed

lemma process_page_clean:
  "\<forall>u \<in> set (getUsersForPage env (pv_authorId page) (pv_pageType page)). \<not> reserved_handle u \<Longrightarrow>
   \<exists>st1. process_page env page st = Inr st1"
  using trackAppearances_clean
    [of "getUsersForPage env (pv_authorId page) (pv_pageType page)" "pv_newsletterId page"
        "personAppearances st"]
  by (auto simp: process_page_def)

lemma finishScan_cong:
  "username s = username t \<Longrightarrow> newsletters s = newsletters t \<Longrightarrow>
   personAppearances s = personAppearances t \<Longrightarrow> posted (finishScan s) = posted (finishScan t)"
proof -
  assume a: "username s = username t" "newsletters s = newsletters t"
    "personAppearances s = personAppearances t"
  then have "match_of s = match_of t" by (intro ext) (simp add: match_of_def split: prod.splits)
  with a show ?thesis by (simp add: finishScan_def collect_matches_def)
qed

lemma completed_append: "completed (xs @ ys) = completed xs @ completed ys"
  by (induction xs rule: completed.induct) simp_all

lemma errors_append: "errors (xs @ ys) = errors xs @ errors ys"
  by (induction xs rule: errors.induct) simp_all

lemma scanning_message_plain [simp]:
  "completed (scanning_message s p # rest) = completed rest"
  "errors (scanning_message s p # rest) = errors rest"
  by (simp_all add: scanning_message_def)

lemma errors_finishScan [simp]: "errors (posted (finishScan s)) = []"
  by (simp add: finishScan_def)

lemma quiet_step:
  assumes "page_to_process env st = Some page" and "process_page env page st = Inr st1"
  shows "page_load quiet env (Some st) = move_on quiet st1 [scanning_message st page] (Some page)"
  using assms by (simp add: page_load_def processScan_def Let_def)

lemma quiet_pass:
  assumes "page_to_process env st = None"
  shows "page_load quiet env (Some st) = move_on quiet st [] None"
  using assms by (simp add: page_load_def processScan_def Let_def)

lemma move_on_quiet_next:
  "currentPageIndex s < length (pagesToVisit s) \<Longrightarrow>
   move_on quiet s msgs v =
     \<lparr>stored = Some s,
      posted = msgs @ [scanning_message s (pagesToVisit s ! currentPageIndex s)],
      location = Some (page_url (pagesToVisit s ! currentPageIndex s)),
      extracted = v, uncaught = None\<rparr>"
  by (simp add: move_on_def Let_def)

lemma move_on_quiet_finish:
  "\<not> currentPageIndex s < length (pagesToVisit s) \<Longrightarrow>
   move_on quiet s msgs v = (finishScan s)\<lparr>posted := msgs @ posted (finishScan s), extracted := v\<rparr>"
  by (simp add: move_on_def Let_def)

lemma finishScan_plain [simp]:
  "stored (finishScan s) = None" "location (finishScan s) = None"
  by (simp_all add: finishScan_def)

lemma drive_on_page:
  assumes "currentPageIndex st < length (pagesToVisit st)"
    and "str_includes url (''@'' @ pv_subdomain (pagesToVisit st ! currentPageIndex st))"
    and "length (pagesToVisit st) - currentPageIndex st \<le> length envs"
    and "\<forall>env \<in> set envs. \<forall>a pt. \<forall>u \<in> set (getUsersForPage env a pt). \<not> reserved_handle u"
  shows "fst (drive envs url (Some st))
           = zip (take (length (pagesToVisit st) - currentPageIndex st) envs)
               (drop (currentPageIndex st) (pagesToVisit st))
     \<and> fst (snd (drive envs url (Some st))) = None
     \<and> errors (snd (snd (drive envs url (Some st)))) = []
     \<and> (\<exists>A. replay (fst (drive envs url (Some st))) (personAppearances st) = Inr A
          \<and> completed (snd (snd (drive envs url (Some st))))
              = completed (posted (finishScan (st\<lparr>personAppearances := A\<rparr>))))"
  using assms
proof (induction envs arbitrary: url st)
  case Nil
  then show ?case by simp
next
  case (Cons env envs)
  let ?env = "env\<lparr>env_href := url\<rparr>"
  let ?k = "currentPageIndex st"
  let ?n = "length (pagesToVisit st)"
  let ?page = "pagesToVisit st ! ?k"
  have v: "page_to_process ?env st = Some ?page"
    using Cons.prems(1,2) by (simp add: page_to_process_def)
  from Cons.prems(4) process_page_clean [of env ?page st]
  obtain st1 where p0: "process_page env ?page st = Inr st1" by auto
  then have p: "process_page ?env ?page st = Inr st1" by (simp add: process_page_href)
  from process_page_state [OF p0]
  have st1: "st1 = st\<lparr>personAppearances := personAppearances st1, currentPageIndex := Suc ?k\<rparr>" .
  have c1: "currentPageIndex st1 = Suc ?k" and pg1: "pagesToVisit st1 = pagesToVisit st"
    and un1: "username st1 = username st" and nl1: "newsletters st1 = newsletters st"
    by (subst st1, simp)+
  have d: "drop ?k (pagesToVisit st) = ?page # drop (Suc ?k) (pagesToVisit st)"
    using Cons.prems(1) by (simp add: Cons_nth_drop_Suc)
  have "?n - ?k = Suc (?n - Suc ?k)" using Cons.prems(1) by arith
  then have tk: "take (?n - ?k) (env # envs) = env # take (?n - Suc ?k) envs"
    by (simp only: take_Suc_Cons)
  let ?m1 = "scanning_message st ?page"
  have out: "page_load quiet ?env (Some st) = move_on quiet st1 [?m1] (Some ?page)"
    using quiet_step [OF v p] .
  show ?case
  proof (cases "Suc ?k < ?n")
    case True
    let ?next = "pagesToVisit st ! Suc ?k"
    let ?url = "page_url ?next"
    let ?D = "drive envs ?url (Some st1)"
    have mo: "move_on quiet st1 [?m1] (Some ?page) =
        \<lparr>stored = Some st1, posted = [?m1] @ [scanning_message st1 ?next],
         location = Some ?url, extracted = Some ?page, uncaught = None\<rparr>"
      using True move_on_quiet_next [of st1 "[?m1]" "Some ?page"] by (simp add: c1 pg1)
    have dr: "drive (env # envs) url (Some st)
        = ((env, ?page) # fst ?D, fst (snd ?D), ([?m1] @ [scanning_message st1 ?next]) @ snd (snd ?D))"
      by (simp add: out mo Let_def split: prod.splits)
    have ih: "fst ?D = zip (take (?n - Suc ?k) envs) (drop (Suc ?k) (pagesToVisit st))
        \<and> fst (snd ?D) = None
        \<and> errors (snd (snd ?D)) = []
        \<and> (\<exists>A. replay (fst ?D) (personAppearances st1) = Inr A
             \<and> completed (snd (snd ?D))
                 = completed (posted (finishScan (st1\<lparr>personAppearances := A\<rparr>))))"
    proof -
      have 1: "currentPageIndex st1 < length (pagesToVisit st1)" using True by (simp add: c1 pg1)
      have 2: "str_includes ?url (''@'' @ pv_subdomain (pagesToVisit st1 ! currentPageIndex st1))"
        unfolding c1 pg1 by (rule includes_page_url)
      have 3: "length (pagesToVisit st1) - currentPageIndex st1 \<le> length envs"
        using Cons.prems(3) by (simp add: c1 pg1)
      have 4: "\<forall>env \<in> set envs. \<forall>a pt. \<forall>u \<in> set (getUsersForPage env a pt). \<not> reserved_handle u"
        using Cons.prems(4) by simp
      from Cons.IH [OF 1 2 3 4] show ?thesis unfolding c1 pg1 .
    qed
    then obtain A where A: "replay (fst ?D) (personAppearances st1) = Inr A"
      and cm: "completed (snd (snd ?D))
                 = completed (posted (finishScan (st1\<lparr>personAppearances := A\<rparr>)))"
      by blast
    have fc: "posted (finishScan (st1\<lparr>personAppearances := A\<rparr>))
        = posted (finishScan (st\<lparr>personAppearances := A\<rparr>))"
      by (rule finishScan_cong) (simp_all add: un1 nl1)
    have r: "replay ((env, ?page) # fst ?D) (personAppearances st) = Inr A"
      using replay_step [OF p0] A by simp
    show ?thesis
      unfolding dr using ih r cm fc
      by (simp add: d tk completed_append errors_append)
  next
    case False
    with Cons.prems(1) have last: "Suc ?k = ?n" by simp
    have mo: "move_on quiet st1 [?m1] (Some ?page)
        = (finishScan st1)\<lparr>posted := [?m1] @ posted (finishScan st1), extracted := Some ?page\<rparr>"
      using last move_on_quiet_finish [of st1 "[?m1]" "Some ?page"] by (simp add: c1 pg1)
    have dr: "drive (env # envs) url (Some st)
        = ([(env, ?page)], None, [?m1] @ posted (finishScan st1))"
      by (simp add: out mo Let_def)
    have fc: "posted (finishScan st1)
        = posted (finishScan (st\<lparr>personAppearances := personAppearances st1\<rparr>))"
      by (rule finishScan_cong) (simp_all add: un1 nl1)
    have r: "replay [(env, ?page)] (personAppearances st) = Inr (personAppearances st1)"
      using replay_step [OF p0, of "[]"] by simp
    have z: "zip (take (?n - ?k) (env # envs)) (drop ?k (pagesToVisit st)) = [(env, ?page)]"
      using last d by (simp add: tk)
    show ?thesis
      unfolding dr using r fc z by (simp add: completed_append errors_append)
  qed
qed

lemma drive_complete:
  assumes len: "length (pagesToVisit st) - currentPageIndex st < length envs"
    and clean: "\<forall>env \<in> set envs. \<forall>a pt. \<forall>u \<in> set (getUsersForPage env a pt). \<not> reserved_handle u"
  shows "map snd (fst (drive envs url (Some st))) = drop (currentPageIndex st) (pagesToVisit st)
     \<and> fst (snd (drive envs url (Some st))) = None
     \<and> errors (snd (snd (drive envs url (Some st)))) = []
     \<and> (\<exists>j. j \<le> 1 \<and> map fst (fst (drive envs url (Some st)))
                = take (length (pagesToVisit st) - currentPageIndex st) (drop j envs))
     \<and> (\<exists>A. replay (fst (drive envs url (Some st))) (personAppearances st) = Inr A
          \<and> completed (snd (snd (drive envs url (Some st))))
              = completed (posted (finishScan (st\<lparr>personAppearances := A\<rparr>))))"
proof (cases envs)
  case Nil
  with len show ?thesis by simp
next
  case (Cons env rest)
  let ?env = "env\<lparr>env_href := url\<rparr>"
  let ?k = "currentPageIndex st"
  let ?n = "length (pagesToVisit st)"
  have lz: "length (drop ?k (pagesToVisit st)) = ?n - ?k" by simp
  show ?thesis
  proof (cases "?k < ?n")
    case False
    then have v: "page_to_process ?env st = None" by (simp add: page_to_process_def)
    have out: "page_load quiet ?env (Some st)
        = (finishScan st)\<lparr>posted := [] @ posted (finishScan st), extracted := None\<rparr>"
      using quiet_pass [OF v] move_on_quiet_finish [OF False, of "[]" None] by simp
    have dr: "drive envs url (Some st) = ([], None, posted (finishScan st))"
      unfolding Cons by (simp add: out Let_def)
    have "replay [] (personAppearances st) = Inr (personAppearances st)" by simp
    moreover have "st\<lparr>personAppearances := personAppearances st\<rparr> = st" by simp
    moreover have "\<exists>j::nat. j \<le> 1" by (rule exI [of _ 0]) simp
    ultimately show ?thesis unfolding dr using False by simp
  next
    case True
    show ?thesis
    proof (cases "str_includes url (''@'' @ pv_subdomain (pagesToVisit st ! ?k))")
      case yes: True
      have l: "?n - ?k \<le> length envs" using len by simp
      let ?D = "drive envs url (Some st)"
      from drive_on_page [OF True yes l clean]
      have f: "fst ?D = zip (take (?n - ?k) envs) (drop ?k (pagesToVisit st))"
        and rest: "fst (snd ?D) = None" "errors (snd (snd ?D)) = []"
          "\<exists>A. replay (fst ?D) (personAppearances st) = Inr A
             \<and> completed (snd (snd ?D)) = completed (posted (finishScan (st\<lparr>personAppearances := A\<rparr>)))"
        by blast+
      have s: "map snd (fst ?D) = drop ?k (pagesToVisit st)"
        unfolding f using l by (simp add: map_snd_zip_take min_def)
      have e: "map fst (fst ?D) = take (?n - ?k) (drop 0 envs)"
        unfolding f using l by (simp add: map_fst_zip_take min_def)
      have "\<exists>j. j \<le> 1 \<and> map fst (fst ?D) = take (?n - ?k) (drop j envs)"
        using e by (intro exI [of _ 0]) simp
      with s rest show ?thesis by blast
    next
      case no: False
      then have v: "page_to_process ?env st = None" by (simp add: page_to_process_def)
      let ?next = "pagesToVisit st ! ?k"
      let ?D = "drive rest (page_url ?next) (Some st)"
      have out: "page_load quiet ?env (Some st) =
          \<lparr>stored = Some st, posted = [] @ [scanning_message st ?next],
           location = Some (page_url ?next), extracted = None, uncaught = None\<rparr>"
        using quiet_pass [OF v] move_on_quiet_next [OF True, of "[]" None] by simp
      have dr: "drive envs url (Some st)
          = (fst ?D, fst (snd ?D), [scanning_message st ?next] @ snd (snd ?D))"
        unfolding Cons by (simp add: out Let_def split: prod.splits)
      have l: "?n - ?k \<le> length rest" using len Cons by simp
      have c: "\<forall>env \<in> set rest. \<forall>a pt. \<forall>u \<in> set (getUsersForPage env a pt). \<not> reserved_handle u"
        using clean Cons by simp
      from drive_on_page [OF True includes_page_url l c]
      have f: "fst ?D = zip (take (?n - ?k) rest) (drop ?k (pagesToVisit st))"
        and rest: "fst (snd ?D) = None" "errors (snd (snd ?D)) = []"
          "\<exists>A. replay (fst ?D) (personAppearances st) = Inr A
             \<and> completed (snd (snd ?D)) = completed (posted (finishScan (st\<lparr>personAppearances := A\<rparr>)))"
        by blast+
      have s: "map snd (fst ?D) = drop ?k (pagesToVisit st)"
        unfolding f using l by (simp add: map_snd_zip_take min_def)
      have e: "map fst (fst ?D) = take (?n - ?k) (drop 1 envs)"
        unfolding f Cons using l by (simp add: map_fst_zip_take min_def)
      have j: "\<exists>j. j \<le> 1 \<and> map fst (fst ?D) = take (?n - ?k) (drop j envs)"
        using e by (intro exI [of _ 1]) simp
      show ?thesis unfolding dr using s rest j by simp
    qed
  qed
qed

text \<open>Cancellation, and what one run processes.\<close>

lemma cancel_in_timer_clears:
  "cancel_in_timer i \<Longrightarrow> page_load i env (Some st) = idle None"
  by (simp add: page_load_def processScan_def Let_def)

lemma cancel_in_delay_clears:
  "cancel_in_delay i \<Longrightarrow> unloaded i = None \<Longrightarrow> uncaught (page_load i env (Some st)) = None \<Longrightarrow>
   stored (page_load i env (Some st)) = None"
  by (auto simp: page_load_def processScan_def Let_def move_on_def idle_def
      split: option.splits sum.splits if_splits)

lemma cancel_in_fetch_undone:
  "unloaded i \<noteq> Some in_fetch \<Longrightarrow> uncaught (page_load i env st0) = None \<Longrightarrow>
   page_load (i\<lparr>cancel_in_fetch := b\<rparr>) env st0 = page_load i env st0"
  by (auto simp: page_load_def processScan_def Let_def move_on_def idle_def
      split: option.splits sum.splits if_splits)

lemma one_visit_per_load: "length (fst (resume [ev] st0)) \<le> 1"
proof (cases ev)
  case (Load i env)
  then show ?thesis
    by (cases "extracted (page_load i env st0)") (simp_all add: Let_def split: prod.splits)
qed

lemma api_page_users: "h \<noteq> [] \<Longrightarrow> getUsersForPage (api_page h) a pt = [person h]"
  by (simp add: getUsersForPage_def api_page_def api_block_def extractUsersFromApiResponse_def
      users_of_lists_def users_of_list_def users_of_group_def pushed_user_def raw_person_def
      person_def or_str_def)

lemma empty_page_users: "getUsersForPage empty_page a pt = []"
  by (simp add: getUsersForPage_def empty_page_def api_block_def next_data_block_def)

lemma home_page_users: "getUsersForPage home_page a pt = []"
  by (simp add: home_page_def getUsersForPage_href empty_page_users)

lemma example_hrefs:
  "env_href (api_page h) = ''https://substack.com/@n1/subscribers''"
  "env_href home_page = ''https://substack.com/home''"
  by (simp_all add: api_page_def home_page_def)

lemma fresh_pages:
  "pagesToVisit fresh_state =
     [visit_for (two_newsletters ! 0) subscribers, visit_for (two_newsletters ! 0) followers,
      visit_for (two_newsletters ! 1) subscribers, visit_for (two_newsletters ! 1) followers]"
  by (simp add: fresh_state_def two_newsletters_def)

lemma clean_followed_pages:
  "\<forall>env \<in> set followed_pages. \<forall>a pt. \<forall>u \<in> set (getUsersForPage env a pt). \<not> reserved_handle u"
  by (simp add: followed_pages_def home_page_users empty_page_users api_page_users
      reserved_handle_def person_def object_prototype_keys_def)

lemma resume_example:
  "map snd (fst (resume interrupted_loads (Some fresh_state))) = take 2 (pagesToVisit fresh_state)"
  "snd (resume interrupted_loads (Some fresh_state)) = None"
  by (simp_all add: interrupted_loads_def page_load_def processScan_def page_to_process_def
      process_page_def move_on_def idle_def Let_def quiet_def fresh_state_def two_newsletters_def
      visit_for_def api_page_users home_page_users example_hrefs str_includes_def sublist_code
      track_user_def add_newsletter_def ensure_entry_def property_of_def object_prototype_keys_def
      person_def split: prod.splits)

lemma drive_example:
  "map (\<lambda>m. mu_username (m_user m))
     (completed (snd (snd (drive followed_pages ''https://substack.com/home'' (Some fresh_state)))))
     = [''erin'']"
  by (simp add: followed_pages_def page_load_def processScan_def page_to_process_def
      process_page_def move_on_def idle_def Let_def quiet_def fresh_state_def two_newsletters_def
      visit_for_def api_page_users home_page_users empty_page_users getUsersForPage_href
      page_url_def str_includes_def sublist_code
      track_user_def add_newsletter_def ensure_entry_def property_of_def object_prototype_keys_def
      person_def finishScan_def collect_matches_def object_entries_def digit_value_def
      match_of_def map_filter_simps toLowerCase_def lower_char_def upper_case_def lower_case_def
      match_user_of_def scanning_message_def split: prod.splits)

lemma stall_example:
  "uncaught (page_load quiet (api_page ''constructor'') (Some fresh_state)) = Some TypeError"
  "stored (page_load quiet (api_page ''constructor'') (Some fresh_state)) = Some fresh_state"
  "location (page_load quiet (api_page ''constructor'') (Some fresh_state)) = None"
  "extracted (page_load quiet (api_page ''constructor'') (Some fresh_state)) = None"
  by (simp_all add: page_load_def processScan_def page_to_process_def
      process_page_def idle_def Let_def quiet_def fresh_state_def two_newsletters_def
      visit_for_def api_page_users example_hrefs str_includes_def sublist_code
      track_user_def add_newsletter_def ensure_entry_def property_of_def object_prototype_keys_def
      person_def)

text \<open>
  C1. Take any stored state with cursor \<open>k\<close> and any sequence of page loads after it,
  on any pages, each run cancelled or cut off by an unload at any of its three waits,
  or ended by an exception. The visits processed (extracted from, merged into the
  appearances, written back) are, in order, a segment of the plan that starts at index
  \<open>k\<close>: no visit below \<open>k\<close> is processed again, none twice or out of order, none is
  passed over. The appearances of a state left in the store are those of the stored state
  with exactly these visits merged in, each from the page it was processed on, and its
  cursor is \<open>k\<close> plus their number; one load processes at most one visit.

  Cancellation: with the store empty nothing is processed any more; a cancel during
  the timer leaves the run with nothing done and the store empty; a cancel during the
  delay leaves the store empty when the run got that far. A cancel during the fetch
  does not end the scan: when the tracking raises nothing, \<^verbatim>\<open>setState(state)\<close>
  writes the state back and the run is the run without the cancel.

  Completion: when the host loads each URL that the script navigates to, nothing
  interrupts, there is one page more than visits left, and no page yields a handle
  that names a property of \<^verbatim>\<open>Object.prototype\<close> (on such a handle the tracking
  throws before the cursor moves, see \<open>stall_example\<close>), then exactly the visits \<open>k\<close>
  to the end are processed, each on its own load, no error is posted,
  \<^verbatim>\<open>finishScan\<close> clears the store, and the matches sent are those of the
  appearances with these visits merged in.
\<close>

theorem resumption_in_plan_order:
  "map snd (fst (resume events (Some st)))
     = take (length (fst (resume events (Some st)))) (drop (currentPageIndex st) (pagesToVisit st))
   \<and> (\<exists>A. replay (fst (resume events (Some st))) (personAppearances st) = Inr A
        \<and> (case snd (resume events (Some st)) of
              None \<Rightarrow> True
            | Some s \<Rightarrow> s = st\<lparr>personAppearances := A,
                              currentPageIndex := currentPageIndex st
                                                  + length (fst (resume events (Some st)))\<rparr>))
   \<and> length (fst (resume [ev] st0)) \<le> 1
   \<and> resume events None = ([], None)
   \<and> page_load (i\<lparr>cancel_in_timer := True\<rparr>) env (Some st) = idle None
   \<and> (cancel_in_delay d \<and> unloaded d = None \<and> uncaught (page_load d env (Some st)) = None
        \<longrightarrow> stored (page_load d env (Some st)) = None)
   \<and> (unloaded f \<noteq> Some in_fetch \<and> uncaught (page_load f env st0) = None
        \<longrightarrow> page_load (f\<lparr>cancel_in_fetch := b\<rparr>) env st0 = page_load f env st0)
   \<and> (length (pagesToVisit st) - currentPageIndex st < length envs
        \<and> (\<forall>env \<in> set envs. \<forall>a pt. \<forall>u \<in> set (getUsersForPage env a pt). \<not> reserved_handle u)
      \<longrightarrow> map snd (fst (drive envs url (Some st))) = drop (currentPageIndex st) (pagesToVisit st)
        \<and> fst (snd (drive envs url (Some st))) = None
        \<and> errors (snd (snd (drive envs url (Some st)))) = []
        \<and> (\<exists>j. j \<le> 1 \<and> map fst (fst (drive envs url (Some st)))
                   = take (length (pagesToVisit st) - currentPageIndex st) (drop j envs))
        \<and> (\<exists>A. replay (fst (drive envs url (Some st))) (personAppearances st) = Inr A
             \<and> completed (snd (snd (drive envs url (Some st))))
                 = completed (posted (finishScan (st\<lparr>personAppearances := A\<rparr>)))))"
proof -
  have t: "page_load (i\<lparr>cancel_in_timer := True\<rparr>) env (Some st) = idle None"
    by (rule cancel_in_timer_clears) simp
  show ?thesis
    using resume_safe [of events st] one_visit_per_load [of ev st0] resume_None [of events] t
      cancel_in_delay_clears [of d env st] cancel_in_fetch_undone [of f env st0 b]
      drive_complete [of st envs url]
    by blast
qed

theorem resumption_in_plan_order_witness:
  "length (pagesToVisit fresh_state) - currentPageIndex fresh_state < length followed_pages
   \<and> map snd (fst (drive followed_pages ''https://substack.com/home'' (Some fresh_state)))
       = pagesToVisit fresh_state
   \<and> fst (snd (drive followed_pages ''https://substack.com/home'' (Some fresh_state))) = None
   \<and> errors (snd (snd (drive followed_pages ''https://substack.com/home'' (Some fresh_state)))) = []
   \<and> map (\<lambda>m. mu_username (m_user m))
       (completed (snd (snd (drive followed_pages ''https://substack.com/home'' (Some fresh_state)))))
       = [''erin'']
   \<and> map snd (fst (resume interrupted_loads (Some fresh_state))) = take 2 (pagesToVisit fresh_state)
   \<and> snd (resume interrupted_loads (Some fresh_state)) = None
   \<and> uncaught (page_load (quiet\<lparr>cancel_in_delay := True\<rparr>) (api_page ''erin'') (Some fresh_state)) = None
   \<and> stored (page_load (quiet\<lparr>cancel_in_delay := True\<rparr>) (api_page ''erin'') (Some fresh_state)) = None
   \<and> uncaught (page_load quiet (api_page ''erin'') (Some fresh_state)) = None
   \<and> map_option currentPageIndex
       (stored (page_load (quiet\<lparr>cancel_in_fetch := True\<rparr>) (api_page ''erin'') (Some fresh_state)))
       = Some 1"
proof -
  let ?d = "quiet\<lparr>cancel_in_delay := True\<rparr>"
  let ?D = "drive followed_pages ''https://substack.com/home'' (Some fresh_state)"
  have c: "currentPageIndex fresh_state = 0" by (simp add: fresh_state_def)
  have h: "length (pagesToVisit fresh_state) - currentPageIndex fresh_state < length followed_pages"
    by (simp add: fresh_pages c followed_pages_def)
  have u: "uncaught (page_load ?d (api_page ''erin'') (Some fresh_state)) = None"
    "uncaught (page_load quiet (api_page ''erin'') (Some fresh_state)) = None"
    "map_option currentPageIndex (stored (page_load quiet (api_page ''erin'') (Some fresh_state)))
       = Some 1"
    by (simp_all add: page_load_def processScan_def page_to_process_def
      process_page_def move_on_def idle_def Let_def quiet_def fresh_state_def two_newsletters_def
      visit_for_def api_page_users example_hrefs str_includes_def sublist_code
      track_user_def add_newsletter_def ensure_entry_def property_of_def object_prototype_keys_def
      person_def)
  note T = resumption_in_plan_order
         [of interrupted_loads fresh_state "Load quiet home_page" "Some fresh_state" quiet
             "api_page ''erin''" ?d quiet True followed_pages "''https://substack.com/home''"]
  from T h clean_followed_pages
  have D: "map snd (fst ?D) = drop (currentPageIndex fresh_state) (pagesToVisit fresh_state)"
    "fst (snd ?D) = None" "errors (snd (snd ?D)) = []"
    by blast+
  have q: "cancel_in_delay ?d" "unloaded ?d = None" "unloaded quiet \<noteq> Some in_fetch"
    by simp_all
  from T q u(1)
  have S: "stored (page_load ?d (api_page ''erin'') (Some fresh_state)) = None"
    by blast
  from T q u(2)
  have F: "page_load (quiet\<lparr>cancel_in_fetch := True\<rparr>) (api_page ''erin'') (Some fresh_state)
      = page_load quiet (api_page ''erin'') (Some fresh_state)"
    by blast
  show ?thesis
    unfolding F using h D S u drive_example resume_example by (simp add: c)
qed

end
